theory Spec2Isabelle
  imports Main "HOL-Library.Word"
begin

unbundle bit_operations_syntax

text \<open>
  A model of \<^verbatim>\<open>ros/serialization.h\<close>: the three streams (\<^verbatim>\<open>OStream\<close>, \<^verbatim>\<open>IStream\<close>,
  \<^verbatim>\<open>LStream\<close>), the codecs of the built-in types, the default codec of user types and
  the message envelopes, with the properties of the specification proved or refuted
  about them. Exceptions are values, the stream and the memory are passed explicitly,
  and the lengths are 32-bit words wherever the source computes in \<^verbatim>\<open>uint32_t\<close>.
\<close>

section \<open>Machine data: bytes, words and flat memory\<close>

type_synonym u8 = "8 word"
type_synonym u16 = "16 word"
type_synonym u32 = "32 word"
type_synonym u64 = "64 word"

text \<open>
  A pointer \<^verbatim>\<open>uint8_t*\<close> is a flat address. The pointer width is not fixed by
  \<^verbatim>\<open>serialization.h\<close>, so addresses are unbounded naturals: pointer arithmetic
  never wraps. Memory maps every address to a byte.
\<close>

type_synonym addr = nat
type_synonym memory = "addr \<Rightarrow> u8"

text \<open>
  The encoding of a multi-byte primitive is its object representation on the host
  (\<^verbatim>\<open>*reinterpret_cast<Type*>(p) = v\<close>). The host byte order is a parameter.
\<close>

datatype endian = LittleEndian | BigEndian

fun le_bytes :: "nat \<Rightarrow> 'a::len word \<Rightarrow> u8 list" where
  "le_bytes 0 w = []"
| "le_bytes (Suc n) w = ucast w # le_bytes n (drop_bit 8 w)"

fun le_word :: "u8 list \<Rightarrow> 'a::len word" where
  "le_word [] = 0"
| "le_word (b # bs) = ucast b OR push_bit 8 (le_word bs)"

definition host_bytes :: "endian \<Rightarrow> nat \<Rightarrow> 'a::len word \<Rightarrow> u8 list" where
  "host_bytes e n w = (case e of LittleEndian \<Rightarrow> le_bytes n w | BigEndian \<Rightarrow> rev (le_bytes n w))"

definition host_word :: "endian \<Rightarrow> u8 list \<Rightarrow> 'a::len word" where
  "host_word e bs = le_word (case e of LittleEndian \<Rightarrow> bs | BigEndian \<Rightarrow> rev bs)"

text \<open>\<^verbatim>\<open>memcpy(dst, src, n)\<close> with the \<open>n\<close> source bytes given as a list.\<close>

definition memcpy :: "addr \<Rightarrow> u8 list \<Rightarrow> memory \<Rightarrow> memory" where
  "memcpy dst bs m = (\<lambda>a. if dst \<le> a \<and> a < dst + length bs then bs ! (a - dst) else m a)"

definition read_mem :: "memory \<Rightarrow> addr \<Rightarrow> nat \<Rightarrow> u8 list" where
  "read_mem m p n = map m [p..<p + n]"

section \<open>Failure and sequencing\<close>

text \<open>
  \<^verbatim>\<open>throwStreamOverrun()\<close> raises \<^verbatim>\<open>StreamOverrunException\<close>. A C++ exception
  leaves the stream object and the memory as they were at the throw, so every operation
  returns its outcome together with the state reached.
\<close>

datatype exn = StreamOverrunException

type_synonym 'a result = "exn + 'a"

definition ret :: "'a \<Rightarrow> 's \<Rightarrow> 'a result \<times> 's" where
  "ret a st = (Inr a, st)"

definition bnd :: "('s \<Rightarrow> 'a result \<times> 's) \<Rightarrow> ('a \<Rightarrow> 's \<Rightarrow> 'b result \<times> 's) \<Rightarrow> 's \<Rightarrow> 'b result \<times> 's" where
  "bnd f g st = (case f st of (Inl ex, st') \<Rightarrow> (Inl ex, st') | (Inr a, st') \<Rightarrow> g a st')"

text \<open>
  The loop \<^verbatim>\<open>for (; it != end; ++it) stream.next(*it);\<close> of a read pass over \<open>n\<close>
  freshly resized elements.
\<close>

fun read_n :: "('s \<Rightarrow> 'a result \<times> 's) \<Rightarrow> nat \<Rightarrow> 's \<Rightarrow> 'a list result \<times> 's" where
  "read_n r 0 st = (Inr [], st)"
| "read_n r (Suc n) st =
     (case r st of
        (Inl ex, st') \<Rightarrow> (Inl ex, st')
      | (Inr x, st') \<Rightarrow>
          (case read_n r n st' of
             (Inl ex, st'') \<Rightarrow> (Inl ex, st'')
           | (Inr xs, st'') \<Rightarrow> (Inr (x # xs), st'')))"

section \<open>The stream triad\<close>

text \<open>
  \<^verbatim>\<open>struct Stream\<close>: the cursor \<^verbatim>\<open>data_\<close> (here \<open>data_ptr\<close>) and the exclusive bound
  \<^verbatim>\<open>end_\<close> (here \<open>end_ptr\<close>); a name may not end in an underscore.
\<close>

record Stream =
  data_ptr :: addr
  end_ptr :: addr

definition Stream_init :: "addr \<Rightarrow> u32 \<Rightarrow> Stream" where
  "Stream_init d c = \<lparr>data_ptr = d, end_ptr = d + unat c\<rparr>"

definition IStream :: "addr \<Rightarrow> u32 \<Rightarrow> Stream" where
  "IStream d c = Stream_init d c"

definition OStream :: "addr \<Rightarrow> u32 \<Rightarrow> Stream" where
  "OStream d c = Stream_init d c"

definition getData :: "Stream \<Rightarrow> addr" where
  "getData s = data_ptr s"

text \<open>\<^verbatim>\<open>(uint32_t)(end_ - data_)\<close>: a signed pointer difference, cast to 32 bits.\<close>

definition getLength :: "Stream \<Rightarrow> u32" where
  "getLength s = word_of_int (int (end_ptr s) - int (data_ptr s))"

text \<open>
  \<^verbatim>\<open>Stream::advance\<close>: the cursor is moved first, then compared with the bound; the
  throw happens with the cursor already moved.
\<close>

definition advance :: "u32 \<Rightarrow> Stream \<Rightarrow> addr result \<times> Stream" where
  "advance len s =
     (let old_data = data_ptr s;
          s' = s\<lparr>data_ptr := data_ptr s + unat len\<rparr>
      in if data_ptr s' > end_ptr s' then (Inl StreamOverrunException, s') else (Inr old_data, s'))"

text \<open>\<^verbatim>\<open>struct LStream\<close>: a 32-bit counter and no buffer.\<close>

record LStream =
  count_acc :: u32

definition LStream_init :: LStream where
  "LStream_init = \<lparr>count_acc = 0\<rparr>"

definition LStream_advance :: "u32 \<Rightarrow> LStream \<Rightarrow> LStream" where
  "LStream_advance len s = s\<lparr>count_acc := count_acc s + len\<rparr>"

definition LStream_getLength :: "LStream \<Rightarrow> u32" where
  "LStream_getLength s = count_acc s"

text \<open>
  A write pass runs on an output stream together with the memory its buffer lives in; a
  read pass only moves the stream and reads the memory.
\<close>

type_synonym ostate = "Stream \<times> memory"

text \<open>\<^verbatim>\<open>memcpy(stream.advance(len), src, n)\<close>: the advance is an argument of the copy.\<close>

definition advance_store :: "u32 \<Rightarrow> u8 list \<Rightarrow> ostate \<Rightarrow> unit result \<times> ostate" where
  "advance_store len src st =
     (case advance len (fst st) of
        (Inl ex, s') \<Rightarrow> (Inl ex, (s', snd st))
      | (Inr p, s') \<Rightarrow> (Inr (), (s', memcpy p src (snd st))))"

text \<open>\<^verbatim>\<open>memcpy(dst, stream.advance(len), n)\<close>: the \<open>n\<close> bytes at the returned pointer.\<close>

definition advance_load :: "memory \<Rightarrow> u32 \<Rightarrow> nat \<Rightarrow> Stream \<Rightarrow> u8 list result \<times> Stream" where
  "advance_load m len n s =
     (case advance len s of
        (Inl ex, s') \<Rightarrow> (Inl ex, s')
      | (Inr p, s') \<Rightarrow> (Inr (read_mem m p n), s'))"

section \<open>Types, traits and values\<close>

text \<open>
  The ten types of \<^verbatim>\<open>ROS_CREATE_SIMPLE_SERIALIZER\<close>. A float or double is only ever
  copied, so it is held as its 32- or 64-bit object representation.
\<close>

datatype prim_ty =
  TUInt8 | TInt8 | TUInt16 | TInt16 | TUInt32 | TInt32 | TUInt64 | TInt64 | TFloat | TDouble

datatype prim =
  UInt8 u8 | Int8 u8 | UInt16 u16 | Int16 u16 | UInt32 u32 | Int32 u32
| UInt64 u64 | Int64 u64 | Float u32 | Double u64

fun prim_type :: "prim \<Rightarrow> prim_ty" where
  "prim_type (UInt8 w) = TUInt8"
| "prim_type (Int8 w) = TInt8"
| "prim_type (UInt16 w) = TUInt16"
| "prim_type (Int16 w) = TInt16"
| "prim_type (UInt32 w) = TUInt32"
| "prim_type (Int32 w) = TInt32"
| "prim_type (UInt64 w) = TUInt64"
| "prim_type (Int64 w) = TInt64"
| "prim_type (Float w) = TFloat"
| "prim_type (Double w) = TDouble"

text \<open>\<^verbatim>\<open>sizeof(Type)\<close>.\<close>

fun sizeof :: "prim_ty \<Rightarrow> nat" where
  "sizeof TUInt8 = 1"
| "sizeof TInt8 = 1"
| "sizeof TUInt16 = 2"
| "sizeof TInt16 = 2"
| "sizeof TUInt32 = 4"
| "sizeof TInt32 = 4"
| "sizeof TUInt64 = 8"
| "sizeof TInt64 = 8"
| "sizeof TFloat = 4"
| "sizeof TDouble = 8"

text \<open>The object representation of a primitive, and the value read back from one.\<close>

fun object_bytes :: "endian \<Rightarrow> prim \<Rightarrow> u8 list" where
  "object_bytes e (UInt8 w) = host_bytes e 1 w"
| "object_bytes e (Int8 w) = host_bytes e 1 w"
| "object_bytes e (UInt16 w) = host_bytes e 2 w"
| "object_bytes e (Int16 w) = host_bytes e 2 w"
| "object_bytes e (UInt32 w) = host_bytes e 4 w"
| "object_bytes e (Int32 w) = host_bytes e 4 w"
| "object_bytes e (UInt64 w) = host_bytes e 8 w"
| "object_bytes e (Int64 w) = host_bytes e 8 w"
| "object_bytes e (Float w) = host_bytes e 4 w"
| "object_bytes e (Double w) = host_bytes e 8 w"

fun from_object :: "endian \<Rightarrow> prim_ty \<Rightarrow> u8 list \<Rightarrow> prim" where
  "from_object e TUInt8 bs = UInt8 (host_word e bs)"
| "from_object e TInt8 bs = Int8 (host_word e bs)"
| "from_object e TUInt16 bs = UInt16 (host_word e bs)"
| "from_object e TInt16 bs = Int16 (host_word e bs)"
| "from_object e TUInt32 bs = UInt32 (host_word e bs)"
| "from_object e TInt32 bs = Int32 (host_word e bs)"
| "from_object e TUInt64 bs = UInt64 (host_word e bs)"
| "from_object e TInt64 bs = Int64 (host_word e bs)"
| "from_object e TFloat bs = Float (host_word e bs)"
| "from_object e TDouble bs = Double (host_word e bs)"

text \<open>
  The types with a codec in \<^verbatim>\<open>serialization.h\<close>: the primitives, \<^verbatim>\<open>bool\<close>,
  \<^verbatim>\<open>std::string\<close>, \<^verbatim>\<open>ros::Time\<close>, \<^verbatim>\<open>ros::Duration\<close>, \<^verbatim>\<open>std::vector<T>\<close> and
  \<^verbatim>\<open>boost::array<T, N>\<close>. A vector or array value carries its element type \<open>T\<close>, which
  C++ knows statically; the arity \<open>N\<close> of an array is the length of its element list.
  A time or duration is its two 32-bit fields \<^verbatim>\<open>sec\<close> and \<^verbatim>\<open>nsec\<close>.
\<close>

datatype ty =
  TPrim prim_ty | TBool | TString | TTime | TDuration | TVector ty | TArray ty nat

datatype val =
  VPrim prim
| VBool bool
| VString "u8 list"
| VTime u32 u32
| VDuration u32 u32
| VVector ty "val list"
| VArray ty "val list"

text \<open>
  Modelled from the spec: the traits \<^verbatim>\<open>IsFixedSize<T>\<close> and \<^verbatim>\<open>IsSimple<T>\<close> are declared
  in \<^verbatim>\<open>message_traits.h\<close> and \<^verbatim>\<open>builtin_message_traits.h\<close>, which are not part of the
  source at hand. The spec: fixed-size are "all numeric primitives, fixed arrays of
  fixed-size elements, two-field time values; false for strings, dynamic sequences";
  simple is "true for all numeric primitives; false for booleans", booleans being
  fixed-size and handled by a dedicated non-bulk codec.
\<close>

fun IsFixedSize :: "ty \<Rightarrow> bool" where
  "IsFixedSize (TPrim pt) = True"
| "IsFixedSize TBool = True"
| "IsFixedSize TString = False"
| "IsFixedSize TTime = True"
| "IsFixedSize TDuration = True"
| "IsFixedSize (TVector T) = False"
| "IsFixedSize (TArray T N) = IsFixedSize T"

fun IsSimple :: "ty \<Rightarrow> bool" where
  "IsSimple (TPrim pt) = True"
| "IsSimple T = False"

fun type_of :: "val \<Rightarrow> ty" where
  "type_of (VPrim p) = TPrim (prim_type p)"
| "type_of (VBool b) = TBool"
| "type_of (VString str) = TString"
| "type_of (VTime sec nsec) = TTime"
| "type_of (VDuration sec nsec) = TDuration"
| "type_of (VVector T v) = TVector T"
| "type_of (VArray T v) = TArray T (length v)"

text \<open>
  What the C++ type system guarantees of a value: every element of a container has the
  container's element type. An array has at least one element: \<^verbatim>\<open>front()\<close> of a
  zero-length \<^verbatim>\<open>boost::array\<close>, which two of the array codecs call, is not part of
  the source at hand.
\<close>

fun well_typed :: "val \<Rightarrow> bool" where
  "well_typed (VVector T v) = (\<forall>x \<in> set v. well_typed x \<and> type_of x = T)"
| "well_typed (VArray T v) = (v \<noteq> [] \<and> (\<forall>x \<in> set v. well_typed x \<and> type_of x = T))"
| "well_typed x = True"

text \<open>
  The contiguous storage of a vector or array of simple elements, as \<^verbatim>\<open>&v.front()\<close>
  points to it. Only elements of a simple type have an object representation here.
\<close>

fun object_of :: "endian \<Rightarrow> val \<Rightarrow> u8 list" where
  "object_of e (VPrim p) = object_bytes e p"
| "object_of e x = []"

definition storage :: "endian \<Rightarrow> val list \<Rightarrow> u8 list" where
  "storage e v = concat (map (object_of e) v)"

fun from_storage :: "endian \<Rightarrow> prim_ty \<Rightarrow> nat \<Rightarrow> u8 list \<Rightarrow> val list" where
  "from_storage e pt 0 bs = []"
| "from_storage e pt (Suc n) bs =
     VPrim (from_object e pt (take (sizeof pt) bs)) # from_storage e pt n (drop (sizeof pt) bs)"

section \<open>Primitive codecs\<close>

text \<open>
  \<^verbatim>\<open>Serializer<Type>\<close> as \<^verbatim>\<open>ROS_CREATE_SIMPLE_SERIALIZER(Type)\<close> generates it:
  \<^verbatim>\<open>write\<close> stores the value at \<^verbatim>\<open>stream.advance(sizeof(v))\<close>, \<^verbatim>\<open>read\<close> loads it
  from there, \<^verbatim>\<open>serializedLength\<close> advances by \<^verbatim>\<open>sizeof(Type)\<close>.
\<close>

definition prim_write :: "endian \<Rightarrow> prim \<Rightarrow> ostate \<Rightarrow> unit result \<times> ostate" where
  "prim_write e v = advance_store (of_nat (sizeof (prim_type v))) (object_bytes e v)"

definition prim_read :: "endian \<Rightarrow> memory \<Rightarrow> prim_ty \<Rightarrow> Stream \<Rightarrow> prim result \<times> Stream" where
  "prim_read e m pt =
     bnd (advance_load m (of_nat (sizeof pt)) (sizeof pt)) (\<lambda>bs. ret (from_object e pt bs))"

definition prim_serializedLength :: "prim \<Rightarrow> LStream \<Rightarrow> LStream" where
  "prim_serializedLength v = LStream_advance (of_nat (sizeof (prim_type v)))"

text \<open>\<^verbatim>\<open>stream.next(len)\<close> for a \<^verbatim>\<open>uint32_t len\<close> on an input stream.\<close>

definition read_uint32 :: "endian \<Rightarrow> memory \<Rightarrow> Stream \<Rightarrow> u32 result \<times> Stream" where
  "read_uint32 e m = bnd (advance_load m 4 4) (\<lambda>bs. ret (host_word e bs))"

section \<open>Bulk-copy container codecs (simple elements)\<close>

text \<open>
  \<^verbatim>\<open>VectorSerializer<T>\<close> for \<^verbatim>\<open>IsSimple<T>\<close>. The count is \<^verbatim>\<open>(uint32_t)v.size()\<close>,
  the copy size the 32-bit \<^verbatim>\<open>data_len = len * sizeof(T)\<close>.
\<close>

definition VectorSerializer_simple_write ::
  "endian \<Rightarrow> prim_ty \<Rightarrow> val list \<Rightarrow> ostate \<Rightarrow> unit result \<times> ostate" where
  "VectorSerializer_simple_write e pt v =
     (let len = (of_nat (length v) :: u32) in
      bnd (prim_write e (UInt32 len))
        (\<lambda>u. if v \<noteq> []
              then (let data_len = len * of_nat (sizeof pt)
                    in advance_store data_len (take (unat data_len) (storage e v)))
              else ret ()))"

text \<open>
  \<^verbatim>\<open>v.resize(len)\<close> gives \<open>len\<close> value-initialised (zero) elements; the copy then
  overwrites the first \<^verbatim>\<open>data_len\<close> bytes of their storage.
\<close>

definition VectorSerializer_simple_read ::
  "endian \<Rightarrow> memory \<Rightarrow> prim_ty \<Rightarrow> Stream \<Rightarrow> val list result \<times> Stream" where
  "VectorSerializer_simple_read e m pt =
     bnd (read_uint32 e m)
       (\<lambda>len. if len > 0
               then (let data_len = of_nat (sizeof pt) * len
                     in bnd (advance_load m data_len (unat data_len))
                          (\<lambda>bs. ret (from_storage e pt (unat len)
                                  (bs @ replicate (unat len * sizeof pt - unat data_len) 0))))
               else ret [])"

definition VectorSerializer_simple_serializedLength :: "prim_ty \<Rightarrow> val list \<Rightarrow> LStream \<Rightarrow> LStream" where
  "VectorSerializer_simple_serializedLength pt v = LStream_advance (of_nat (4 + length v * sizeof pt))"

text \<open>
  \<^verbatim>\<open>ArraySerializer<T, N>\<close> for \<^verbatim>\<open>IsSimple<T>\<close>:
  \<^verbatim>\<open>const uint32_t data_len = N * sizeof(T)\<close>. The bytes of a destination array that
  the copy does not reach keep what they held; they are taken to be zero.
\<close>

definition ArraySerializer_simple_write ::
  "endian \<Rightarrow> prim_ty \<Rightarrow> val list \<Rightarrow> ostate \<Rightarrow> unit result \<times> ostate" where
  "ArraySerializer_simple_write e pt v =
     (let data_len = (of_nat (length v * sizeof pt) :: u32)
      in advance_store data_len (take (unat data_len) (storage e v)))"

definition ArraySerializer_simple_read ::
  "endian \<Rightarrow> memory \<Rightarrow> prim_ty \<Rightarrow> nat \<Rightarrow> Stream \<Rightarrow> val list result \<times> Stream" where
  "ArraySerializer_simple_read e m pt N =
     (let data_len = (of_nat (N * sizeof pt) :: u32)
      in bnd (advance_load m data_len (unat data_len))
           (\<lambda>bs. ret (from_storage e pt N (bs @ replicate (N * sizeof pt - unat data_len) 0))))"

definition ArraySerializer_simple_serializedLength :: "prim_ty \<Rightarrow> val list \<Rightarrow> LStream \<Rightarrow> LStream" where
  "ArraySerializer_simple_serializedLength pt v = LStream_advance (of_nat (length v * sizeof pt))"

section \<open>The three passes\<close>

text \<open>
  \<^verbatim>\<open>serialize(stream, t)\<close> on an \<^verbatim>\<open>OStream\<close>. The container codec is chosen as the
  template specialisations are: not fixed-size, else simple, else fixed-size and not
  simple; the simple types are exactly the primitives. \<open>serialize_each\<close> is the loop
  \<^verbatim>\<open>for (; it != end; ++it) stream.next(*it);\<close>.
\<close>

fun serialize :: "endian \<Rightarrow> val \<Rightarrow> ostate \<Rightarrow> unit result \<times> ostate"
  and serialize_each :: "endian \<Rightarrow> val list \<Rightarrow> ostate \<Rightarrow> unit result \<times> ostate" where
  "serialize e (VPrim p) = prim_write e p"
| "serialize e (VBool v) = advance_store 1 [if v then 1 else 0]"
| "serialize e (VString str) =
     bnd (prim_write e (UInt32 (of_nat (length str))))
       (\<lambda>u. if length str > 0 then advance_store (of_nat (length str)) str else ret ())"
| "serialize e (VTime sec nsec) =
     bnd (prim_write e (UInt32 sec)) (\<lambda>u. prim_write e (UInt32 nsec))"
| "serialize e (VDuration sec nsec) =
     bnd (prim_write e (Int32 sec)) (\<lambda>u. prim_write e (Int32 nsec))"
| "serialize e (VVector T v) =
     (if \<not> IsFixedSize T
      then bnd (prim_write e (UInt32 (of_nat (length v)))) (\<lambda>u. serialize_each e v)
      else (case T of
              TPrim pt \<Rightarrow> VectorSerializer_simple_write e pt v
            | _ \<Rightarrow> bnd (prim_write e (UInt32 (of_nat (length v)))) (\<lambda>u. serialize_each e v)))"
| "serialize e (VArray T v) =
     (if \<not> IsFixedSize T
      then serialize_each e v
      else (case T of
              TPrim pt \<Rightarrow> ArraySerializer_simple_write e pt v
            | _ \<Rightarrow> serialize_each e v))"
| "serialize_each e [] = ret ()"
| "serialize_each e (x # xs) = bnd (serialize e x) (\<lambda>u. serialize_each e xs)"

text \<open>
  \<^verbatim>\<open>deserialize(stream, t)\<close> on an \<^verbatim>\<open>IStream\<close> over memory \<open>m\<close>. Every codec
  overwrites the whole of its destination, so the pass is directed by the type alone and
  returns the value read.
\<close>

fun deserialize :: "endian \<Rightarrow> memory \<Rightarrow> ty \<Rightarrow> Stream \<Rightarrow> val result \<times> Stream" where
  "deserialize e m (TPrim pt) = bnd (prim_read e m pt) (\<lambda>p. ret (VPrim p))"
| "deserialize e m TBool = bnd (advance_load m 1 1) (\<lambda>bs. ret (VBool (hd bs \<noteq> 0)))"
| "deserialize e m TString =
     bnd (read_uint32 e m)
       (\<lambda>len. if len > 0
               then bnd (advance_load m len (unat len)) (\<lambda>bs. ret (VString bs))
               else ret (VString []))"
| "deserialize e m TTime =
     bnd (read_uint32 e m) (\<lambda>sec. bnd (read_uint32 e m) (\<lambda>nsec. ret (VTime sec nsec)))"
| "deserialize e m TDuration =
     bnd (read_uint32 e m) (\<lambda>sec. bnd (read_uint32 e m) (\<lambda>nsec. ret (VDuration sec nsec)))"
| "deserialize e m (TVector T) =
     (if \<not> IsFixedSize T
      then bnd (read_uint32 e m)
             (\<lambda>len. bnd (read_n (deserialize e m T) (unat len)) (\<lambda>v. ret (VVector T v)))
      else (case T of
              TPrim pt \<Rightarrow> bnd (VectorSerializer_simple_read e m pt) (\<lambda>v. ret (VVector T v))
            | _ \<Rightarrow> bnd (read_uint32 e m)
                     (\<lambda>len. bnd (read_n (deserialize e m T) (unat len)) (\<lambda>v. ret (VVector T v)))))"
| "deserialize e m (TArray T N) =
     (if \<not> IsFixedSize T
      then bnd (read_n (deserialize e m T) N) (\<lambda>v. ret (VArray T v))
      else (case T of
              TPrim pt \<Rightarrow> bnd (ArraySerializer_simple_read e m pt N) (\<lambda>v. ret (VArray T v))
            | _ \<Rightarrow> bnd (read_n (deserialize e m T) N) (\<lambda>v. ret (VArray T v))))"

text \<open>
  \<^verbatim>\<open>serializationLength(stream, t)\<close> on an \<^verbatim>\<open>LStream\<close>. For fixed-size, non-simple
  elements one element is measured in a fresh stream (\<^verbatim>\<open>Stream s; s.next(v.front())\<close>)
  and multiplied by the count, in 32 bits. The vector guards \<^verbatim>\<open>front()\<close> with
  \<^verbatim>\<open>!v.empty()\<close>; the array does not, and for an array without elements the product
  with \<^verbatim>\<open>N = 0\<close> is taken, which is 0. \<open>serializedLength_each\<close> is the loop
  \<^verbatim>\<open>for (; it != end; ++it) stream.next(*it);\<close>.
\<close>

fun serializedLength :: "val \<Rightarrow> LStream \<Rightarrow> LStream"
  and serializedLength_each :: "val list \<Rightarrow> LStream \<Rightarrow> LStream" where
  "serializedLength (VPrim p) = prim_serializedLength p"
| "serializedLength (VBool v) = LStream_advance 1"
| "serializedLength (VString str) = LStream_advance (4 + of_nat (length str))"
| "serializedLength (VTime sec nsec) = LStream_advance 8"
| "serializedLength (VDuration sec nsec) = LStream_advance 8"
| "serializedLength (VVector T v) =
     (if \<not> IsFixedSize T
      then (\<lambda>stream. serializedLength_each v (LStream_advance 4 stream))
      else (case T of
              TPrim pt \<Rightarrow> VectorSerializer_simple_serializedLength pt v
            | _ \<Rightarrow> (\<lambda>stream.
                     (case v of
                        [] \<Rightarrow> LStream_advance 4 stream
                      | x # xs \<Rightarrow>
                          LStream_advance
                            (LStream_getLength (serializedLength x LStream_init) * of_nat (length v))
                            (LStream_advance 4 stream)))))"
| "serializedLength (VArray T v) =
     (if \<not> IsFixedSize T
      then serializedLength_each v
      else (case T of
              TPrim pt \<Rightarrow> ArraySerializer_simple_serializedLength pt v
            | _ \<Rightarrow> (case v of
                     [] \<Rightarrow> LStream_advance 0
                   | x # xs \<Rightarrow>
                       LStream_advance
                         (LStream_getLength (serializedLength x LStream_init) * of_nat (length v)))))"
| "serializedLength_each [] = (\<lambda>stream. stream)"
| "serializedLength_each (x # xs) = (\<lambda>stream. serializedLength_each xs (serializedLength x stream))"

text \<open>\<^verbatim>\<open>uint32_t serializationLength(const T& t)\<close>: a fresh \<^verbatim>\<open>LStream\<close>, walked once.\<close>

definition serializationLength :: "val \<Rightarrow> u32" where
  "serializationLength t = LStream_getLength (serializedLength t LStream_init)"

section \<open>The default codec\<close>

text \<open>
  The unspecialised \<^verbatim>\<open>Serializer<T>\<close> hands the pass to the value's own methods, which
  are not part of this source: \<open>t_serialize t p seq\<close> is the effect on memory of
  \<^verbatim>\<open>t.serialize(p, seq)\<close>, \<open>t_deserialize t p m\<close> the value \<^verbatim>\<open>t\<close> holds after
  \<^verbatim>\<open>t.deserialize(p)\<close> over memory \<open>m\<close>, \<open>t_set_length n t\<close> the assignment to
  \<^verbatim>\<open>t.__serialized_length\<close>, and \<open>t_serializationLength t\<close> the result of
  \<^verbatim>\<open>t.serializationLength()\<close>.
\<close>

definition Serializer_write ::
  "('t \<Rightarrow> addr \<Rightarrow> u32 \<Rightarrow> memory \<Rightarrow> memory) \<Rightarrow> 't \<Rightarrow> ostate \<Rightarrow> unit result \<times> ostate" where
  "Serializer_write t_serialize t st =
     (Inr (), (fst st, t_serialize t (getData (fst st)) 0 (snd st)))"

definition Serializer_read ::
  "(u32 \<Rightarrow> 't \<Rightarrow> 't) \<Rightarrow> ('t \<Rightarrow> addr \<Rightarrow> memory \<Rightarrow> 't) \<Rightarrow> memory \<Rightarrow> 't \<Rightarrow> Stream \<Rightarrow> 't result \<times> Stream" where
  "Serializer_read t_set_length t_deserialize m t s =
     (Inr (t_deserialize (t_set_length (getLength s) t) (getData s) m), s)"

definition Serializer_serializedLength :: "('t \<Rightarrow> u32) \<Rightarrow> 't \<Rightarrow> LStream \<Rightarrow> LStream" where
  "Serializer_serializedLength t_serializationLength t = LStream_advance (t_serializationLength t)"

section \<open>Message framing\<close>

text \<open>
  Modelled from the spec: \<^verbatim>\<open>SerializedMessage\<close> is declared in
  \<^verbatim>\<open>serialized_message.h\<close>, which is not part of the source at hand: "the owned buffer
  plus the computed total size and a marker for where the payload begins". The marker is
  absent until it is assigned.
\<close>

record SerializedMessage =
  buf :: addr
  num_bytes :: nat
  message_start :: "addr option"

text \<open>
  \<^verbatim>\<open>serializeMessage<M>\<close> and \<^verbatim>\<open>serializeServiceResponse<M>\<close>, for a message type
  with the codec \<open>M_serializedLength\<close>, \<open>M_write\<close>. \<open>new_buf\<close> is the pointer
  \<^verbatim>\<open>new uint8_t[m.num_bytes]\<close> returns; \<^verbatim>\<open>lstream.getLength() + 4\<close> is 32-bit
  arithmetic. An exception leaves no message, only the memory.
\<close>

definition serializeMessage ::
  "('m \<Rightarrow> LStream \<Rightarrow> LStream) \<Rightarrow> ('m \<Rightarrow> ostate \<Rightarrow> unit result \<times> ostate) \<Rightarrow>
   endian \<Rightarrow> 'm \<Rightarrow> addr \<Rightarrow> memory \<Rightarrow> SerializedMessage result \<times> memory" where
  "serializeMessage M_serializedLength M_write e message new_buf mem =
     (let lstream = M_serializedLength message LStream_init;
          n = unat (LStream_getLength lstream + 4);
          s = OStream new_buf (of_nat n)
      in case prim_write e (UInt32 (of_nat n - 4)) (s, mem) of
           (Inl ex, st1) \<Rightarrow> (Inl ex, snd st1)
         | (Inr u, st1) \<Rightarrow>
             (case M_write message st1 of
                (Inl ex, st2) \<Rightarrow> (Inl ex, snd st2)
              | (Inr u, st2) \<Rightarrow>
                  (Inr \<lparr>buf = new_buf, num_bytes = n, message_start = Some (getData (fst st1))\<rparr>,
                   snd st2)))"

definition serializeServiceResponse ::
  "('m \<Rightarrow> LStream \<Rightarrow> LStream) \<Rightarrow> ('m \<Rightarrow> ostate \<Rightarrow> unit result \<times> ostate) \<Rightarrow>
   endian \<Rightarrow> bool \<Rightarrow> 'm \<Rightarrow> addr \<Rightarrow> memory \<Rightarrow> SerializedMessage result \<times> memory" where
  "serializeServiceResponse M_serializedLength M_write e ok message new_buf mem =
     (if ok
      then (let lstream = M_serializedLength message LStream_init;
                n = unat (LStream_getLength lstream + 5);
                s = OStream new_buf (of_nat n)
            in case prim_write e (UInt8 (if ok then 1 else 0)) (s, mem) of
                 (Inl ex, st1) \<Rightarrow> (Inl ex, snd st1)
               | (Inr u, st1) \<Rightarrow>
                   (case prim_write e (UInt32 (of_nat n - 5)) st1 of
                      (Inl ex, st2) \<Rightarrow> (Inl ex, snd st2)
                    | (Inr u, st2) \<Rightarrow>
                        (case M_write message st2 of
                           (Inl ex, st3) \<Rightarrow> (Inl ex, snd st3)
                         | (Inr u, st3) \<Rightarrow>
                             (Inr \<lparr>buf = new_buf, num_bytes = n, message_start = None\<rparr>, snd st3))))
      else (let n = 5;
                s = OStream new_buf (of_nat n)
            in case prim_write e (UInt8 (if ok then 1 else 0)) (s, mem) of
                 (Inl ex, st1) \<Rightarrow> (Inl ex, snd st1)
               | (Inr u, st1) \<Rightarrow>
                   (case prim_write e (UInt32 0) st1 of
                      (Inl ex, st2) \<Rightarrow> (Inl ex, snd st2)
                    | (Inr u, st2) \<Rightarrow>
                        (Inr \<lparr>buf = new_buf, num_bytes = n, message_start = None\<rparr>, snd st2))))"

section \<open>Encoded sizes and bytes\<close>

text \<open>
  The encoded size as the format defines it, without any 32-bit reduction: the width of
  a primitive, 1 for a boolean, 8 for a time or duration, 4 plus the byte length of a
  string, the 4-byte count plus the elements of a vector, the elements of an array.
\<close>

fun true_size :: "val \<Rightarrow> nat" where
  "true_size (VPrim p) = sizeof (prim_type p)"
| "true_size (VBool b) = 1"
| "true_size (VString str) = 4 + length str"
| "true_size (VTime sec nsec) = 8"
| "true_size (VDuration sec nsec) = 8"
| "true_size (VVector T v) = 4 + sum_list (map true_size v)"
| "true_size (VArray T v) = sum_list (map true_size v)"

text \<open>
  The distance a write pass moves the cursor: each \<^verbatim>\<open>advance\<close> takes a
  \<^verbatim>\<open>uint32_t\<close>, so a string length or a bulk-copy size enters reduced to 32 bits.
\<close>

fun wire_size :: "val \<Rightarrow> nat" where
  "wire_size (VPrim p) = sizeof (prim_type p)"
| "wire_size (VBool b) = 1"
| "wire_size (VString str) = 4 + unat (of_nat (length str) :: u32)"
| "wire_size (VTime sec nsec) = 8"
| "wire_size (VDuration sec nsec) = 8"
| "wire_size (VVector T v) =
     (if \<not> IsFixedSize T then 4 + sum_list (map wire_size v)
      else (case T of
              TPrim pt \<Rightarrow> 4 + unat ((of_nat (length v) :: u32) * of_nat (sizeof pt))
            | _ \<Rightarrow> 4 + sum_list (map wire_size v)))"
| "wire_size (VArray T v) =
     (if \<not> IsFixedSize T then sum_list (map wire_size v)
      else (case T of
              TPrim pt \<Rightarrow> unat (of_nat (length v * sizeof pt) :: u32)
            | _ \<Rightarrow> sum_list (map wire_size v)))"

text \<open>The bytes of the encoding, in stream order.\<close>

fun wire_bytes :: "endian \<Rightarrow> val \<Rightarrow> u8 list" where
  "wire_bytes e (VPrim p) = object_bytes e p"
| "wire_bytes e (VBool b) = [if b then 1 else 0]"
| "wire_bytes e (VString str) = host_bytes e 4 (of_nat (length str) :: u32) @ str"
| "wire_bytes e (VTime sec nsec) = host_bytes e 4 sec @ host_bytes e 4 nsec"
| "wire_bytes e (VDuration sec nsec) = host_bytes e 4 sec @ host_bytes e 4 nsec"
| "wire_bytes e (VVector T v) =
     host_bytes e 4 (of_nat (length v) :: u32) @ concat (map (wire_bytes e) v)"
| "wire_bytes e (VArray T v) = concat (map (wire_bytes e) v)"

section \<open>Notions used in the proofs\<close>

text \<open>
  \<open>moves w n\<close>: started on a stream whose cursor is within its bound, the write pass
  \<open>w\<close> keeps the bound, succeeds exactly when \<open>n\<close> more bytes fit and then moves the
  cursor by \<open>n\<close>, never moves it backwards, and changes no byte below the cursor.
\<close>

definition moves :: "(ostate \<Rightarrow> unit result \<times> ostate) \<Rightarrow> nat \<Rightarrow> bool" where
  "moves w n \<longleftrightarrow>
     (\<forall>st. data_ptr (fst st) \<le> end_ptr (fst st) \<longrightarrow>
           end_ptr (fst (snd (w st))) = end_ptr (fst st) \<and>
           (data_ptr (fst st) + n \<le> end_ptr (fst st) \<longrightarrow>
              fst (w st) = Inr () \<and> data_ptr (fst (snd (w st))) = data_ptr (fst st) + n) \<and>
           (end_ptr (fst st) < data_ptr (fst st) + n \<longrightarrow> fst (w st) = Inl StreamOverrunException) \<and>
           data_ptr (fst st) \<le> data_ptr (fst (snd (w st))) \<and>
           (\<forall>a < data_ptr (fst st). snd (snd (w st)) a = snd st a))"

text \<open>
  The one encoded size of every value of a fixed-size type, as a write pass moves the
  cursor for it; 0 for the types that are not fixed-size.
\<close>

fun fixed_size :: "ty \<Rightarrow> nat" where
  "fixed_size (TPrim pt) = sizeof pt"
| "fixed_size TBool = 1"
| "fixed_size TString = 0"
| "fixed_size TTime = 8"
| "fixed_size TDuration = 8"
| "fixed_size (TVector T) = 0"
| "fixed_size (TArray T N) =
     (case T of
        TPrim pt \<Rightarrow> unat ((of_nat N :: u32) * of_nat (sizeof pt))
      | _ \<Rightarrow> N * fixed_size T)"

text \<open>
  Concrete inputs: a memory of zero bytes, and a message type of the old style that is
  served by the default codec: one \<^verbatim>\<open>uint32\<close> field, which its own \<^verbatim>\<open>serialize\<close>
  stores at the write pointer and whose \<^verbatim>\<open>serializationLength()\<close> is 4.
\<close>

definition zero_memory :: memory where
  "zero_memory = (\<lambda>a. 0)"

definition legacy_serialize :: "u32 \<Rightarrow> addr \<Rightarrow> u32 \<Rightarrow> memory \<Rightarrow> memory" where
  "legacy_serialize t write_ptr seq m = memcpy write_ptr (host_bytes LittleEndian 4 t) m"

definition legacy_serializationLength :: "u32 \<Rightarrow> u32" where
  "legacy_serializationLength t = 4"

text \<open>
  \<open>keeps r\<close>: started on a stream whose cursor is within its bound, the read pass \<open>r\<close>
  keeps the bound, never moves the cursor backwards, and leaves it within the bound
  unless it raises the overrun failure.
\<close>

definition keeps :: "(Stream \<Rightarrow> 'a result \<times> Stream) \<Rightarrow> bool" where
  "keeps r \<longleftrightarrow>
     (\<forall>s. data_ptr s \<le> end_ptr s \<longrightarrow>
          end_ptr (snd (r s)) = end_ptr s \<and>
          data_ptr s \<le> data_ptr (snd (r s)) \<and>
          (fst (r s) \<noteq> Inl StreamOverrunException \<longrightarrow> data_ptr (snd (r s)) \<le> end_ptr s))"

text \<open>
  \<open>writes w bs\<close>: wherever \<open>length bs\<close> more bytes fit, the write pass \<open>w\<close> returns
  normally, stores exactly \<open>bs\<close> at the cursor and moves the cursor behind them.
  \<open>reads rd bs a\<close>: wherever the bytes \<open>bs\<close> lie at the cursor within the bound, the
  read pass \<open>rd\<close> returns \<open>a\<close> and moves the cursor behind them.
\<close>

definition writes :: "(ostate \<Rightarrow> unit result \<times> ostate) \<Rightarrow> u8 list \<Rightarrow> bool" where
  "writes w bs \<longleftrightarrow>
     (\<forall>s m. data_ptr s + length bs \<le> end_ptr s \<longrightarrow>
        w (s, m) = (Inr (), (s\<lparr>data_ptr := data_ptr s + length bs\<rparr>, memcpy (data_ptr s) bs m)))"


section \<open>Bytes and memory\<close>

lemma IsSimple_iff: "IsSimple T \<longleftrightarrow> (\<exists>pt. T = TPrim pt)"
  by (cases T) simp_all

lemma IsSimple_IsFixedSize: "IsSimple T \<Longrightarrow> IsFixedSize T"
  by (cases T) simp_all

lemma length_le_bytes [simp]: "length (le_bytes n w) = n"
  by (induction n arbitrary: w) auto

lemma le_word_le_bytes: "le_word (le_bytes n w) = take_bit (8 * n) w"
proof (induction n arbitrary: w)
  case 0
  show ?case by simp
next
  case (Suc n)
  show ?case
    apply (simp add: Suc)
    apply (rule bit_eqI)
    apply (auto simp add: bit_simps)
    done
qed

lemma le_bytes_numeral:
  "le_bytes (numeral k) w = ucast w # le_bytes (pred_numeral k) (drop_bit 8 w)"
  by (simp add: numeral_eq_Suc)

lemma length_host_bytes [simp]: "length (host_bytes e n w) = n"
  by (cases e) (simp_all add: host_bytes_def)

lemma host_word_host_bytes:
  "LENGTH('a) \<le> 8 * n \<Longrightarrow> host_word e (host_bytes e n (w :: 'a::len word)) = w"
  by (cases e) (simp_all add: host_word_def host_bytes_def le_word_le_bytes take_bit_word_eq_self)

lemma host_bytes_zero: "host_bytes e 4 (0 :: u32) = [0, 0, 0, 0]"
  by (cases e) (simp_all add: host_bytes_def le_bytes_numeral)

lemma length_object_bytes [simp]: "length (object_bytes e p) = sizeof (prim_type p)"
  by (cases p) simp_all

lemma from_object_object_bytes [simp]: "from_object e (prim_type p) (object_bytes e p) = p"
  by (cases p) (simp_all add: host_word_host_bytes)

lemma sizeof_le_8: "sizeof pt \<le> 8"
  by (cases pt) simp_all


lemma unat_sizeof [simp]: "unat (of_nat (sizeof pt) :: u32) = sizeof pt"
  by (cases pt) simp_all

lemma length_read_mem [simp]: "length (read_mem m p n) = n"
  by (simp add: read_mem_def)

lemma read_mem_append: "read_mem m p (a + b) = read_mem m p a @ read_mem m (p + a) b"
proof -
  have "[p..<p + (a + b)] = [p..<p + a] @ [p + a..<p + a + b]"
    by (metis add.assoc le_add1 upt_add_eq_append)
  then show ?thesis
    by (simp add: read_mem_def)
qed

lemma read_mem_memcpy_same [simp]: "read_mem (memcpy p bs m) p (length bs) = bs"
  by (rule nth_equalityI) (simp_all add: read_mem_def memcpy_def)

lemma memcpy_Nil [simp]: "memcpy p [] m = m"
  by (rule ext) (auto simp add: memcpy_def)

lemma memcpy_append: "memcpy p (as @ bs) m = memcpy (p + length as) bs (memcpy p as m)"
  by (rule ext) (auto simp add: memcpy_def nth_append)

lemma memcpy_below: "a < p \<Longrightarrow> memcpy p bs m a = m a"
  by (simp add: memcpy_def)


lemma read_mem_cong: "(\<And>a. p \<le> a \<Longrightarrow> a < p + n \<Longrightarrow> m a = m' a) \<Longrightarrow> read_mem m p n = read_mem m' p n"
  by (simp add: read_mem_def)

section \<open>The bounds check\<close>

lemma advance_ok:
  "data_ptr s + unat n \<le> end_ptr s \<Longrightarrow>
   advance n s = (Inr (data_ptr s), s\<lparr>data_ptr := data_ptr s + unat n\<rparr>)"
  by (simp add: advance_def Let_def)

lemma advance_fail:
  "end_ptr s < data_ptr s + unat n \<Longrightarrow>
   advance n s = (Inl StreamOverrunException, s\<lparr>data_ptr := data_ptr s + unat n\<rparr>)"
  by (simp add: advance_def Let_def)

text \<open>
  C3. \<^verbatim>\<open>Stream::advance\<close> raises the overrun failure if and only if cursor + n exceeds
  the end bound; when it does not raise, it returns the position before the advance and
  leaves the cursor at cursor + n.
\<close>

theorem advance_overrun_iff:
  "(fst (advance n s) = Inl StreamOverrunException \<longleftrightarrow> end_ptr s < data_ptr s + unat n) \<and>
   (fst (advance n s) \<noteq> Inl StreamOverrunException \<longrightarrow>
      advance n s = (Inr (data_ptr s), s\<lparr>data_ptr := data_ptr s + unat n\<rparr>))"
  by (simp add: advance_def Let_def)

theorem advance_overrun_iff_witness:
  "fst (advance 3 (Stream_init 10 8)) \<noteq> Inl StreamOverrunException \<and>
   advance 3 (Stream_init 10 8) = (Inr 10, \<lparr>data_ptr = 13, end_ptr = 18\<rparr>) \<and>
   fst (advance 9 (Stream_init 10 8)) = Inl StreamOverrunException"
  using advance_overrun_iff [of 3 "Stream_init 10 8"] advance_overrun_iff [of 9 "Stream_init 10 8"]
  by (simp add: Stream_init_def advance_def)

section \<open>Cursor movement of a write pass\<close>

lemma moves_ret: "moves (ret ()) 0"
  by (simp add: moves_def ret_def)

lemma moves_advance_store: "moves (advance_store len src) (unat len)"
  by (auto simp add: moves_def advance_store_def advance_def Let_def memcpy_def)

lemma moves_bnd:
  assumes a: "moves f n" and b: "moves g k"
  shows "moves (bnd f (\<lambda>u. g)) (n + k)"
  unfolding moves_def
proof (intro allI impI)
  fix st :: ostate
  assume inv: "data_ptr (fst st) \<le> end_ptr (fst st)"
  obtain r st' where fst': "f st = (r, st')" by (cases "f st")
  have A: "end_ptr (fst st') = end_ptr (fst st)"
    "data_ptr (fst st) + n \<le> end_ptr (fst st) \<Longrightarrow> r = Inr () \<and> data_ptr (fst st') = data_ptr (fst st) + n"
    "end_ptr (fst st) < data_ptr (fst st) + n \<Longrightarrow> r = Inl StreamOverrunException"
    "data_ptr (fst st) \<le> data_ptr (fst st')"
    "\<And>a. a < data_ptr (fst st) \<Longrightarrow> snd st' a = snd st a"
    using a [unfolded moves_def, rule_format, of st] fst' inv by simp_all
  show "end_ptr (fst (snd (bnd f (\<lambda>u. g) st))) = end_ptr (fst st) \<and>
        (data_ptr (fst st) + (n + k) \<le> end_ptr (fst st) \<longrightarrow>
           fst (bnd f (\<lambda>u. g) st) = Inr () \<and>
           data_ptr (fst (snd (bnd f (\<lambda>u. g) st))) = data_ptr (fst st) + (n + k)) \<and>
        (end_ptr (fst st) < data_ptr (fst st) + (n + k) \<longrightarrow>
           fst (bnd f (\<lambda>u. g) st) = Inl StreamOverrunException) \<and>
        data_ptr (fst st) \<le> data_ptr (fst (snd (bnd f (\<lambda>u. g) st))) \<and>
        (\<forall>a < data_ptr (fst st). snd (snd (bnd f (\<lambda>u. g) st)) a = snd st a)"
  proof (cases "data_ptr (fst st) + n \<le> end_ptr (fst st)")
    case True
    with A have r: "r = Inr ()" and d: "data_ptr (fst st') = data_ptr (fst st) + n" by simp_all
    have eq: "bnd f (\<lambda>u. g) st = g st'"
      by (simp add: bnd_def fst' r)
    show ?thesis
      using b [unfolded moves_def, rule_format, of st'] A(1) A(5) d True
      by (auto simp add: eq)
  next
    case False
    with A have r: "r = Inl StreamOverrunException" by simp
    have eq: "bnd f (\<lambda>u. g) st = (Inl StreamOverrunException, st')"
      by (simp add: bnd_def fst' r)
    show ?thesis
      using False A by (auto simp add: eq)
  qed
qed

lemma moves_prim_write: "moves (prim_write e p) (sizeof (prim_type p))"
  using moves_advance_store [of "of_nat (sizeof (prim_type p))" "object_bytes e p"]
  by (simp add: prim_write_def)


lemma moves_seq: "moves f n \<Longrightarrow> moves g k \<Longrightarrow> n + k = j \<Longrightarrow> moves (bnd f (\<lambda>u. g)) j"
  using moves_bnd by blast

lemma moves_bool: "moves (advance_store 1 [b]) (Suc 0)"
  using moves_advance_store [of 1 "[b]"] by simp

lemma bnd_ret_unit: "bnd f (\<lambda>u::unit. ret ()) = bnd f ret"
  by (simp add: bnd_def ret_def)

lemma moves_then_ret: "moves f n \<Longrightarrow> moves (bnd f ret) n"
  using moves_seq [of f n "ret ()" 0 n] by (simp add: moves_ret)

lemma moves_count: "moves (prim_write e (UInt32 w)) 4"
  using moves_prim_write [of e "UInt32 w"] by simp

lemma moves_count_signed: "moves (prim_write e (Int32 w)) 4"
  using moves_prim_write [of e "Int32 w"] by simp

lemma moves_string:
  "moves (if length str > 0 then advance_store (of_nat (length str)) str else ret ())
     (unat (of_nat (length str) :: u32))"
  using moves_advance_store [of "of_nat (length str)" str] moves_ret by (cases str) simp_all

lemma moves_vector_simple:
  "moves (VectorSerializer_simple_write e pt v) (4 + unat ((of_nat (length v) :: u32) * of_nat (sizeof pt)))"
proof (cases "v = []")
  case True
  then show ?thesis
    by (simp add: VectorSerializer_simple_write_def moves_then_ret [OF moves_count])
next
  case False
  then show ?thesis
    by (simp add: VectorSerializer_simple_write_def Let_def
        moves_seq [OF moves_count moves_advance_store])
qed

lemma moves_array_simple:
  "moves (ArraySerializer_simple_write e pt v) (unat ((of_nat (length v) :: u32) * of_nat (sizeof pt)))"
  by (simp add: ArraySerializer_simple_write_def Let_def moves_advance_store)

lemma moves_serialize:
  "moves (serialize e v) (wire_size v)"
  "moves (serialize_each e vs) (sum_list (map wire_size vs))"
proof (induction e v and e vs rule: serialize_serialize_each.induct)
  case (1 e p)
  show ?case by (simp add: moves_prim_write)
next
  case (2 e v)
  show ?case by (simp add: moves_bool)
next
  case (3 e str)
  show ?case
    unfolding serialize.simps wire_size.simps
    by (rule moves_seq [OF moves_count moves_string]) simp
next
  case (4 e sec nsec)
  show ?case by (simp add: moves_seq [OF moves_count moves_count])
next
  case (5 e sec nsec)
  show ?case by (simp add: moves_seq [OF moves_count_signed moves_count_signed])
next
  case (6 e T v)
  show ?case
  proof (cases "IsFixedSize T")
    case False
    then show ?thesis using 6(1) by (simp add: moves_seq [OF moves_count])
  next
    case True
    then show ?thesis
      using 6(2-) by (cases T) (simp_all add: moves_vector_simple moves_seq [OF moves_count])
  qed
next
  case (7 e T v)
  show ?case
  proof (cases "IsFixedSize T")
    case False
    then show ?thesis using 7(1) by simp
  next
    case True
    then show ?thesis
      using 7(2-) by (cases T) (simp_all add: moves_array_simple)
  qed
next
  case (8 e)
  show ?case by (simp add: moves_ret)
next
  case (9 e x xs)
  then show ?case by (simp add: moves_seq)
qed

section \<open>The length pass and the sizes\<close>

lemma sum_list_const: "(\<And>x. x \<in> set v \<Longrightarrow> f x = (c::nat)) \<Longrightarrow> sum_list (map f v) = length v * c"
  by (induction v) simp_all

lemma wire_size_fixed:
  "well_typed v \<Longrightarrow> IsFixedSize (type_of v) \<Longrightarrow> wire_size v = fixed_size (type_of v)"
proof (induction v)
  case (VArray T v)
  have "\<And>x. x \<in> set v \<Longrightarrow> wire_size x = fixed_size T"
    using VArray by auto
  then have "sum_list (map wire_size v) = length v * fixed_size T"
    by (rule sum_list_const)
  then show ?case
    using VArray.prems by (cases T) simp_all
qed simp_all

lemma LStream_advance_advance:
  "LStream_advance a (LStream_advance b s) = LStream_advance (b + a) s"
  by (simp add: LStream_advance_def add.assoc)

lemma LStream_advance_zero [simp]: "LStream_advance 0 s = s"
  by (simp add: LStream_advance_def)

lemma LStream_getLength_advance_init [simp]:
  "LStream_getLength (LStream_advance n LStream_init) = n"
  by (simp add: LStream_getLength_def LStream_advance_def LStream_init_def)

lemma serializedLength_wire:
  "well_typed v \<Longrightarrow> serializedLength v = LStream_advance (of_nat (wire_size v))"
  "(\<forall>x \<in> set vs. well_typed x) \<Longrightarrow>
     serializedLength_each vs = LStream_advance (of_nat (sum_list (map wire_size vs)))"
proof (induction v and vs rule: serializedLength_serializedLength_each.induct)
  case (1 p)
  show ?case by (simp add: prim_serializedLength_def)
next
  case (2 v)
  show ?case by simp
next
  case (3 str)
  show ?case by simp
next
  case (4 sec nsec)
  show ?case by simp
next
  case (5 sec nsec)
  show ?case by simp
next
  case (6 T v)
  show ?case
  proof (cases "IsFixedSize T")
    case False
    then show ?thesis
      using "6.IH"(1) "6.prems" by (auto simp add: LStream_advance_advance)
  next
    case fixed: True
    show ?thesis
    proof (cases "IsSimple T")
      case True
      then obtain pt where "T = TPrim pt" by (cases T) simp_all
      then show ?thesis
        by (simp add: VectorSerializer_simple_serializedLength_def)
    next
      case False
      show ?thesis
      proof (cases v)
        case Nil
        then show ?thesis using fixed False by (cases T) simp_all
      next
        case (Cons x xs)
        have wt: "\<And>y. y \<in> set v \<Longrightarrow> well_typed y \<and> type_of y = T"
          using "6.prems" by simp
        have x: "serializedLength x = LStream_advance (of_nat (wire_size x))"
          using "6.IH" fixed False Cons wt by (cases T) simp_all
        have "\<And>y. y \<in> set v \<Longrightarrow> wire_size y = fixed_size T"
          using wt fixed wire_size_fixed by auto
        then have sum: "sum_list (map wire_size v) = length v * fixed_size T"
          by (rule sum_list_const)
        have wx: "wire_size x = fixed_size T"
          using wt fixed wire_size_fixed Cons by auto
        show ?thesis
          using fixed False Cons x sum wx
          by (cases T) (simp_all add: LStream_advance_advance fun_eq_iff algebra_simps)
      qed
    qed
  qed
next
  case (7 T v)
  show ?case
  proof (cases "IsFixedSize T")
    case False
    then show ?thesis
      using "7.IH"(1) "7.prems" by auto
  next
    case fixed: True
    show ?thesis
    proof (cases "IsSimple T")
      case True
      then obtain pt where "T = TPrim pt" by (cases T) simp_all
      then show ?thesis
        by (simp add: ArraySerializer_simple_serializedLength_def)
    next
      case False
      show ?thesis
      proof (cases v)
        case Nil
        then show ?thesis using "7.prems" by simp
      next
        case (Cons x xs)
        have wt: "\<And>y. y \<in> set v \<Longrightarrow> well_typed y \<and> type_of y = T"
          using "7.prems" by simp
        have x: "serializedLength x = LStream_advance (of_nat (wire_size x))"
          using "7.IH" fixed False Cons wt by (cases T) simp_all
        have "\<And>y. y \<in> set v \<Longrightarrow> wire_size y = fixed_size T"
          using wt fixed wire_size_fixed by auto
        then have sum: "sum_list (map wire_size v) = length v * fixed_size T"
          by (rule sum_list_const)
        have wx: "wire_size x = fixed_size T"
          using wt fixed wire_size_fixed Cons by auto
        show ?thesis
          using fixed False Cons x sum wx
          by (cases T) (simp_all add: fun_eq_iff algebra_simps)
      qed
    qed
  qed
next
  case 8
  show ?case by (simp add: fun_eq_iff)
next
  case (9 x xs)
  then show ?case by (simp add: fun_eq_iff LStream_advance_advance)
qed

lemma type_of_prim: "type_of x = TPrim pt \<Longrightarrow> \<exists>p. x = VPrim p \<and> prim_type p = pt"
  by (cases x) simp_all

lemma true_size_prim: "type_of x = TPrim pt \<Longrightarrow> true_size x = sizeof pt"
  using type_of_prim by fastforce

lemma sum_true_size_simple:
  "(\<forall>x \<in> set v. well_typed x \<and> type_of x = TPrim pt) \<Longrightarrow>
   sum_list (map true_size v) = length v * sizeof pt"
  by (rule sum_list_const) (simp add: true_size_prim)

lemma unat_of_nat_le: "unat (of_nat n :: u32) \<le> n"
  by (simp add: unat_of_nat)

lemma unat_of_nat_mult_le: "unat ((of_nat n :: u32) * of_nat k) \<le> n * k"
  using unat_of_nat_le [of "n * k"] by simp

lemma wire_size_le_true: "well_typed v \<Longrightarrow> wire_size v \<le> true_size v"
proof (induction v)
  case (VString str)
  show ?case by (simp add: unat_of_nat_le)
next
  case (VVector T v)
  have le: "sum_list (map wire_size v) \<le> sum_list (map true_size v)"
    using VVector by (intro sum_list_mono) simp
  show ?case
  proof (cases T)
    case (TPrim pt)
    then have "sum_list (map true_size v) = length v * sizeof pt"
      using VVector.prems by (intro sum_true_size_simple) simp
    then show ?thesis using TPrim by (simp add: unat_of_nat_mult_le)
  qed (use le in simp_all)
next
  case (VArray T v)
  have le: "sum_list (map wire_size v) \<le> sum_list (map true_size v)"
    using VArray by (intro sum_list_mono) simp
  show ?case
  proof (cases T)
    case (TPrim pt)
    then have "sum_list (map true_size v) = length v * sizeof pt"
      using VArray.prems by (intro sum_true_size_simple) simp
    then show ?thesis using TPrim by (simp add: unat_of_nat_mult_le)
  qed (use le in simp_all)
qed simp_all

lemma of_nat_sum_list_cong:
  "(\<And>x. x \<in> set v \<Longrightarrow> (of_nat (f x) :: u32) = of_nat (g x)) \<Longrightarrow>
   (of_nat (sum_list (map f v)) :: u32) = of_nat (sum_list (map g v))"
  by (induction v) simp_all

lemma of_nat_wire_size: "well_typed v \<Longrightarrow> (of_nat (wire_size v) :: u32) = of_nat (true_size v)"
proof (induction v)
  case (VVector T v)
  have eq: "(of_nat (sum_list (map wire_size v)) :: u32) = of_nat (sum_list (map true_size v))"
    using VVector by (intro of_nat_sum_list_cong) simp
  show ?case
  proof (cases T)
    case (TPrim pt)
    then have "sum_list (map true_size v) = length v * sizeof pt"
      using VVector.prems by (intro sum_true_size_simple) simp
    then show ?thesis using TPrim by simp
  qed (use eq in simp_all)
next
  case (VArray T v)
  have eq: "(of_nat (sum_list (map wire_size v)) :: u32) = of_nat (sum_list (map true_size v))"
    using VArray by (intro of_nat_sum_list_cong) simp
  show ?case
  proof (cases T)
    case (TPrim pt)
    then have "sum_list (map true_size v) = length v * sizeof pt"
      using VArray.prems by (intro sum_true_size_simple) simp
    then show ?thesis using TPrim by simp
  qed (use eq in simp_all)
qed simp_all

lemma wire_size_eq_true:
  assumes "well_typed v" and "true_size v < 2 ^ 32"
  shows "wire_size v = true_size v"
proof -
  have "unat (of_nat (wire_size v) :: u32) = unat (of_nat (true_size v) :: u32)"
    using assms(1) by (simp add: of_nat_wire_size)
  moreover have "wire_size v < 2 ^ 32"
    using wire_size_le_true [OF assms(1)] assms(2) by simp
  ultimately show ?thesis
    using assms(2) by (simp add: unat_of_nat)
qed

lemma serializationLength_wire:
  "well_typed v \<Longrightarrow> serializationLength v = of_nat (wire_size v)"
  by (simp add: serializationLength_def serializedLength_wire)

lemma serializationLength_true:
  "well_typed v \<Longrightarrow> serializationLength v = of_nat (true_size v)"
  by (simp add: serializationLength_wire of_nat_wire_size)

lemma OStream_simps [simp]:
  "data_ptr (OStream p c) = p" "end_ptr (OStream p c) = p + unat c"
  by (simp_all add: OStream_def Stream_init_def)

lemma serialize_fits:
  "fst (serialize e v (OStream p c, m)) = Inr () \<longleftrightarrow> wire_size v \<le> unat c"
  using moves_serialize(1) [of e v, unfolded moves_def, rule_format, of "(OStream p c, m)"]
  by (cases "wire_size v \<le> unat c") auto


section \<open>The default codec leaves the stream alone\<close>

text \<open>
  C9. The default codec's \<^verbatim>\<open>write\<close> and \<^verbatim>\<open>read\<close> run the value's own method at the
  stream's current data pointer and return normally whatever the stream's bound is; they
  leave the stream, hence its cursor and its remaining length, as it was. Only
  \<^verbatim>\<open>serializedLength\<close> advances its stream, by the value's own
  \<^verbatim>\<open>serializationLength()\<close>.
\<close>

theorem default_codec_leaves_cursor:
  "Serializer_write t_serialize t (s, m) = (Inr (), (s, t_serialize t (data_ptr s) 0 m)) \<and>
   getData (fst (snd (Serializer_write t_serialize t (s, m)))) = getData s \<and>
   getLength (fst (snd (Serializer_write t_serialize t (s, m)))) = getLength s \<and>
   Serializer_read t_set_length t_deserialize m t s
     = (Inr (t_deserialize (t_set_length (getLength s) t) (data_ptr s) m), s) \<and>
   getData (snd (Serializer_read t_set_length t_deserialize m t s)) = getData s \<and>
   getLength (snd (Serializer_read t_set_length t_deserialize m t s)) = getLength s \<and>
   LStream_getLength (Serializer_serializedLength t_serializationLength t ls)
     = LStream_getLength ls + t_serializationLength t"
  by (simp add: Serializer_write_def Serializer_read_def Serializer_serializedLength_def
      getData_def LStream_getLength_def LStream_advance_def)

section \<open>Cursor of a read pass\<close>

lemma keeps_ret: "keeps (ret a)"
  by (simp add: keeps_def ret_def)

lemma keeps_advance_load: "keeps (advance_load m len n)"
  by (simp add: keeps_def advance_load_def advance_def Let_def)

lemma keeps_bnd:
  assumes f: "keeps f" and g: "\<And>a. keeps (g a)"
  shows "keeps (bnd f g)"
  unfolding keeps_def
proof (intro allI impI)
  fix s :: Stream
  assume inv: "data_ptr s \<le> end_ptr s"
  obtain r s' where fs: "f s = (r, s')" by (cases "f s")
  have F: "end_ptr s' = end_ptr s" "data_ptr s \<le> data_ptr s'"
    "r \<noteq> Inl StreamOverrunException \<Longrightarrow> data_ptr s' \<le> end_ptr s"
    using f [unfolded keeps_def, rule_format, OF inv] fs by simp_all
  show "end_ptr (snd (bnd f g s)) = end_ptr s \<and>
        data_ptr s \<le> data_ptr (snd (bnd f g s)) \<and>
        (fst (bnd f g s) \<noteq> Inl StreamOverrunException \<longrightarrow> data_ptr (snd (bnd f g s)) \<le> end_ptr s)"
  proof (cases r)
    case (Inl ex)
    then have "r = Inl StreamOverrunException" by (cases ex) simp
    then show ?thesis using F by (simp add: bnd_def fs)
  next
    case (Inr a)
    then have eq: "bnd f g s = g a s'" by (simp add: bnd_def fs)
    have "data_ptr s' \<le> end_ptr s'" using F Inr by simp
    from g [of a, unfolded keeps_def, rule_format, OF this] F
    show ?thesis by (simp add: eq)
  qed
qed

lemma keeps_read_n: "keeps r \<Longrightarrow> keeps (read_n r n)"
proof (induction n)
  case 0
  have "read_n r 0 = ret []" by (rule ext) (simp add: ret_def)
  then show ?case by (simp add: keeps_ret)
next
  case (Suc n)
  have "read_n r (Suc n) = bnd r (\<lambda>x. bnd (read_n r n) (\<lambda>xs. ret (x # xs)))"
    by (rule ext) (simp add: bnd_def ret_def split: prod.splits sum.splits)
  then show ?case
    using Suc by (simp add: keeps_bnd keeps_ret)
qed

lemma keeps_read_uint32: "keeps (read_uint32 e m)"
  by (simp add: read_uint32_def keeps_bnd keeps_advance_load keeps_ret)

lemma keeps_prim_read: "keeps (prim_read e m pt)"
  by (simp add: prim_read_def keeps_bnd keeps_advance_load keeps_ret)

lemma keeps_vector_simple: "keeps (VectorSerializer_simple_read e m pt)"
  by (simp add: VectorSerializer_simple_read_def Let_def keeps_bnd keeps_read_uint32
      keeps_advance_load keeps_ret)

lemma keeps_array_simple: "keeps (ArraySerializer_simple_read e m pt N)"
  by (simp add: ArraySerializer_simple_read_def Let_def keeps_bnd keeps_advance_load keeps_ret)

lemma keeps_ty_case:
  assumes "\<And>pt. keeps (b pt)" and "keeps a"
  shows "keeps (case T of TPrim pt \<Rightarrow> b pt | _ \<Rightarrow> a)"
  using assms by (cases T) simp_all

lemma keeps_deserialize: "keeps (deserialize e m T)"
proof (induction T)
  case (TVector T)
  have each: "keeps (bnd (read_uint32 e m)
      (\<lambda>len. bnd (read_n (deserialize e m T) (unat len)) (\<lambda>v. ret (VVector T v))))"
    by (intro keeps_bnd keeps_read_uint32 keeps_read_n keeps_ret TVector)
  have bulk: "\<And>pt. keeps (bnd (VectorSerializer_simple_read e m pt) (\<lambda>v. ret (VVector T v)))"
    by (intro keeps_bnd keeps_vector_simple keeps_ret)
  show ?case
    unfolding deserialize.simps
    using each keeps_ty_case [of "\<lambda>pt. bnd (VectorSerializer_simple_read e m pt) (\<lambda>v. ret (VVector T v))", OF bulk each, of T]
    by (cases "IsFixedSize T") simp_all
next
  case (TArray T N)
  have each: "keeps (bnd (read_n (deserialize e m T) N) (\<lambda>v. ret (VArray T v)))"
    by (intro keeps_bnd keeps_read_n keeps_ret TArray)
  have bulk: "\<And>pt. keeps (bnd (ArraySerializer_simple_read e m pt N) (\<lambda>v. ret (VArray T v)))"
    by (intro keeps_bnd keeps_array_simple keeps_ret)
  show ?case
    unfolding deserialize.simps
    using each keeps_ty_case [of "\<lambda>pt. bnd (ArraySerializer_simple_read e m pt N) (\<lambda>v. ret (VArray T v))", OF bulk each, of T]
    by (cases "IsFixedSize T") simp_all
qed (simp_all add: keeps_bnd keeps_prim_read keeps_advance_load keeps_read_uint32 keeps_ret)

text \<open>
  C4 (as amended). A buffered stream is constructed with its cursor within its bound.
  On a buffered stream whose cursor is within its bound, an advance never
  changes the bound and always moves the cursor by exactly the requested amount; it
  raises the overrun failure exactly when that takes the cursor past the bound, so an
  advance that returns leaves the cursor within the bound, and one that fails leaves it
  past the bound. A write or read pass that raises no overrun leaves the cursor within
  the bound.
\<close>

theorem cursor_within_bound_unless_overrun:
  assumes "data_ptr s \<le> end_ptr s"
  shows "data_ptr (OStream d c) \<le> end_ptr (OStream d c) \<and>
         data_ptr (IStream d c) \<le> end_ptr (IStream d c) \<and>
         end_ptr (snd (advance n s)) = end_ptr s \<and>
         data_ptr (snd (advance n s)) = data_ptr s + unat n \<and>
         (fst (advance n s) = Inl StreamOverrunException \<longleftrightarrow>
            end_ptr (snd (advance n s)) < data_ptr (snd (advance n s))) \<and>
         (fst (advance n s) \<noteq> Inl StreamOverrunException \<longrightarrow>
            data_ptr (snd (advance n s)) \<le> end_ptr (snd (advance n s))) \<and>
         (fst (serialize e v (s, m)) = Inr () \<longrightarrow>
            data_ptr (fst (snd (serialize e v (s, m)))) \<le> end_ptr (fst (snd (serialize e v (s, m))))) \<and>
         (fst (deserialize e m T s) \<noteq> Inl StreamOverrunException \<longrightarrow>
            data_ptr (snd (deserialize e m T s)) \<le> end_ptr (snd (deserialize e m T s)))"
proof -
  have adv: "end_ptr (snd (advance n s)) = end_ptr s \<and>
         data_ptr (snd (advance n s)) = data_ptr s + unat n \<and>
         (fst (advance n s) = Inl StreamOverrunException \<longleftrightarrow>
            end_ptr (snd (advance n s)) < data_ptr (snd (advance n s))) \<and>
         (fst (advance n s) \<noteq> Inl StreamOverrunException \<longrightarrow>
            data_ptr (snd (advance n s)) \<le> end_ptr (snd (advance n s)))"
    by (simp add: advance_def Let_def)
  have ser: "fst (serialize e v (s, m)) = Inr () \<longrightarrow>
      data_ptr (fst (snd (serialize e v (s, m)))) \<le> end_ptr (fst (snd (serialize e v (s, m))))"
    using moves_serialize(1) [of e v, unfolded moves_def, rule_format, of "(s, m)"] assms
    by (cases "data_ptr s + wire_size v \<le> end_ptr s") auto
  have de: "fst (deserialize e m T s) \<noteq> Inl StreamOverrunException \<longrightarrow>
      data_ptr (snd (deserialize e m T s)) \<le> end_ptr (snd (deserialize e m T s))"
    using keeps_deserialize [of e m T, unfolded keeps_def, rule_format, OF assms] by simp
  have init: "data_ptr (OStream d c) \<le> end_ptr (OStream d c)"
    "data_ptr (IStream d c) \<le> end_ptr (IStream d c)"
    by (simp_all add: OStream_def IStream_def Stream_init_def)
  from init adv ser de show ?thesis by blast
qed

theorem cursor_within_bound_unless_overrun_witness:
  "data_ptr (Stream_init 0 8) \<le> end_ptr (Stream_init 0 8) \<and>
   fst (advance 3 (Stream_init 0 8)) \<noteq> Inl StreamOverrunException \<and>
   data_ptr (snd (advance 3 (Stream_init 0 8))) \<le> end_ptr (snd (advance 3 (Stream_init 0 8))) \<and>
   fst (serialize LittleEndian (VBool True) (Stream_init 0 8, zero_memory)) = Inr () \<and>
   data_ptr (fst (snd (serialize LittleEndian (VBool True) (Stream_init 0 8, zero_memory))))
     \<le> end_ptr (fst (snd (serialize LittleEndian (VBool True) (Stream_init 0 8, zero_memory)))) \<and>
   fst (deserialize LittleEndian zero_memory TBool (Stream_init 0 8)) \<noteq> Inl StreamOverrunException \<and>
   data_ptr (snd (deserialize LittleEndian zero_memory TBool (Stream_init 0 8)))
     \<le> end_ptr (snd (deserialize LittleEndian zero_memory TBool (Stream_init 0 8)))"
proof -
  have inv: "data_ptr (Stream_init 0 8) \<le> end_ptr (Stream_init 0 8)"
    by (simp add: Stream_init_def)
  have a: "fst (advance 3 (Stream_init 0 8)) \<noteq> Inl StreamOverrunException"
    by (simp add: advance_def Stream_init_def)
  have w: "fst (serialize LittleEndian (VBool True) (Stream_init 0 8, zero_memory)) = Inr ()"
    by (simp add: advance_store_def advance_def Stream_init_def)
  have r: "fst (deserialize LittleEndian zero_memory TBool (Stream_init 0 8)) \<noteq> Inl StreamOverrunException"
    by (simp add: bnd_def ret_def advance_load_def advance_def Stream_init_def)
  from cursor_within_bound_unless_overrun
    [OF inv, where n = 3 and e = LittleEndian and v = "VBool True" and m = zero_memory and T = TBool]
    inv a w r
  show ?thesis by blast
qed

theorem failed_advance_counterexample:
  "data_ptr (Stream_init 0 2) \<le> end_ptr (Stream_init 0 2) \<and>
   fst (advance 3 (Stream_init 0 2)) = Inl StreamOverrunException \<and>
   data_ptr (snd (advance 3 (Stream_init 0 2))) = 3 \<and>
   end_ptr (snd (advance 3 (Stream_init 0 2))) = 2 \<and>
   \<not> data_ptr (snd (advance 3 (Stream_init 0 2))) \<le> end_ptr (snd (advance 3 (Stream_init 0 2)))"
  by (simp add: advance_def Stream_init_def)

section \<open>The length pass adds a fixed amount\<close>

lemma LStream_getLength_init [simp]: "LStream_getLength LStream_init = 0"
  by (simp add: LStream_getLength_def LStream_init_def)

lemma serializedLength_additive:
  "serializedLength v s = LStream_advance (LStream_getLength (serializedLength v LStream_init)) s"
  "serializedLength_each vs s =
     LStream_advance (LStream_getLength (serializedLength_each vs LStream_init)) s"
proof (induction v and vs arbitrary: s and s rule: serializedLength_serializedLength_each.induct)
  case (1 p)
  show ?case by (simp add: prim_serializedLength_def)
next
  case (6 T v)
  show ?case
  proof (cases "IsFixedSize T")
    case False
    then show ?thesis
      using "6.IH"(1) [OF False, of "LStream_advance 4 s"]
        "6.IH"(1) [OF False, of "LStream_advance 4 LStream_init"]
      by (simp add: LStream_advance_advance)
  next
    case True
    then show ?thesis
      by (cases T; cases v)
        (simp_all add: VectorSerializer_simple_serializedLength_def LStream_advance_advance)
  qed
next
  case (7 T v)
  show ?case
  proof (cases "IsFixedSize T")
    case False
    then show ?thesis
      using "7.IH"(1) [OF False, of s] by simp
  next
    case True
    then show ?thesis
      by (cases T; cases v) (simp_all add: ArraySerializer_simple_serializedLength_def)
  qed
next
  case (9 x xs)
  define Lx where "Lx = LStream_getLength (serializedLength x LStream_init)"
  define Lxs where "Lxs = LStream_getLength (serializedLength_each xs LStream_init)"
  have X: "\<And>t. serializedLength x t = LStream_advance Lx t"
    unfolding Lx_def by (rule "9.IH"(2))
  have E: "\<And>t. serializedLength_each xs t = LStream_advance Lxs t"
    unfolding Lxs_def by (rule "9.IH"(1))
  have "\<And>t. serializedLength_each (x # xs) t = LStream_advance (Lx + Lxs) t"
    by (simp add: X E LStream_advance_advance)
  then show ?case by simp
qed simp_all

lemma serializedLength_advance:
  "serializedLength v s = LStream_advance (serializationLength v) s"
  using serializedLength_additive(1) [of v s] by (simp add: serializationLength_def)

lemma serializedLength_each_const:
  "(\<And>y. y \<in> set v \<Longrightarrow> serializationLength y = c) \<Longrightarrow>
   serializedLength_each v s = LStream_advance (c * of_nat (length v)) s"
proof (induction v arbitrary: s)
  case Nil
  show ?case by simp
next
  case (Cons x xs)
  then show ?case
    by (simp add: serializedLength_advance LStream_advance_advance algebra_simps)
qed

text \<open>
  C7. For a non-empty vector, and for an array with a first element, of fixed-size,
  non-simple elements: if every element has the encoded length of the first, the length
  pass of the codec, which measures the first element in a fresh length stream and
  multiplies by the count (after the 4-byte count of a vector), gives what the
  element-by-element loop gives.
\<close>

theorem representative_length_equals_sum:
  assumes "IsFixedSize T" and "\<not> IsSimple T" and "v \<noteq> []"
    and "\<forall>y \<in> set v. serializationLength y = serializationLength (hd v)"
  shows "serializedLength (VVector T v) stream = serializedLength_each v (LStream_advance 4 stream) \<and>
         serializedLength (VArray T v) stream = serializedLength_each v stream"
proof -
  obtain x xs where v: "v = x # xs"
    using assms(3) by (cases v) simp_all
  have each: "\<And>s. serializedLength_each v s
      = LStream_advance (serializationLength x * of_nat (length v)) s"
    using assms(4) v by (intro serializedLength_each_const) auto
  have rep: "LStream_getLength (serializedLength x LStream_init) = serializationLength x"
    by (simp add: serializationLength_def)
  show ?thesis
    using assms(1,2) each rep v by (cases T) simp_all
qed

theorem representative_length_equals_sum_witness:
  "IsFixedSize TTime \<and> \<not> IsSimple TTime \<and> [VTime 1 2, VTime 3 4] \<noteq> [] \<and>
   serializationLength (VTime 1 2) = serializationLength (hd [VTime 1 2, VTime 3 4]) \<and>
   serializationLength (VTime 3 4) = serializationLength (hd [VTime 1 2, VTime 3 4]) \<and>
   serializedLength (VVector TTime [VTime 1 2, VTime 3 4]) LStream_init
     = serializedLength_each [VTime 1 2, VTime 3 4] (LStream_advance 4 LStream_init) \<and>
   serializedLength (VArray TTime [VTime 1 2, VTime 3 4]) LStream_init
     = serializedLength_each [VTime 1 2, VTime 3 4] LStream_init \<and>
   LStream_getLength (serializedLength (VVector TTime [VTime 1 2, VTime 3 4]) LStream_init) = 20"
proof -
  have h: "\<forall>y \<in> set [VTime 1 2, VTime 3 4]. serializationLength y = serializationLength (hd [VTime 1 2, VTime 3 4])"
    by (simp add: serializationLength_def)
  have n: "LStream_getLength (serializedLength (VVector TTime [VTime 1 2, VTime 3 4]) LStream_init) = 20"
    by (simp add: LStream_getLength_def LStream_advance_def LStream_init_def)
  have f: "IsFixedSize TTime" and ns: "\<not> IsSimple TTime" and ne: "[VTime 1 2, VTime 3 4] \<noteq> []"
    by simp_all
  have h1: "serializationLength (VTime 1 2) = serializationLength (hd [VTime 1 2, VTime 3 4])"
    and h2: "serializationLength (VTime 3 4) = serializationLength (hd [VTime 1 2, VTime 3 4])"
    using h by simp_all
  from representative_length_equals_sum [OF f ns ne h, of LStream_init] f ns ne h1 h2 n
  show ?thesis by blast
qed

section \<open>The written count\<close>

lemma prim_write_ok:
  "data_ptr s + sizeof (prim_type p) \<le> end_ptr s \<Longrightarrow>
   prim_write e p (s, m) =
     (Inr (), (s\<lparr>data_ptr := data_ptr s + sizeof (prim_type p)\<rparr>, memcpy (data_ptr s) (object_bytes e p) m))"
  by (simp add: prim_write_def advance_store_def advance_ok)









section \<open>Footprint of the bulk copies\<close>

lemma advance_store_changes:
  assumes "length src \<le> unat len" and "snd (snd (advance_store len src (s, m))) a \<noteq> m a"
  shows "data_ptr s \<le> a \<and> a < data_ptr s + unat len \<and> data_ptr s + unat len \<le> end_ptr s \<and>
         fst (advance_store len src (s, m)) = Inr ()"
  using assms
  by (auto simp add: advance_store_def advance_def Let_def memcpy_def split: if_splits)

lemma advance_store_overrun:
  "fst (advance_store len src (s, m)) = Inl StreamOverrunException \<Longrightarrow>
   snd (snd (advance_store len src (s, m))) = m"
  by (auto simp add: advance_store_def advance_def Let_def split: if_splits)

lemma advance_store_stream:
  "fst (snd (advance_store len src (s, m))) = s\<lparr>data_ptr := data_ptr s + unat len\<rparr>"
  by (simp add: advance_store_def advance_def Let_def)

lemma bnd_unit_cases:
  "bnd f (\<lambda>u. g) st = (if fst (f st) = Inr () then g (snd (f st)) else (Inl StreamOverrunException, snd (f st)))"
proof (cases "f st")
  case (Pair r st')
  then show ?thesis
  proof (cases r)
    case (Inl ex)
    then show ?thesis using Pair by (cases ex) (simp add: bnd_def)
  next
    case (Inr u)
    then show ?thesis using Pair by (simp add: bnd_def)
  qed
qed

lemma vector_simple_write_changes:
  assumes "snd (snd (VectorSerializer_simple_write e pt v (s, m))) a \<noteq> m a"
  shows "data_ptr s \<le> a \<and> a < end_ptr s"
proof -
  let ?len = "of_nat (length v) :: u32"
  let ?dl = "?len * of_nat (sizeof pt)"
  let ?w1 = "prim_write e (UInt32 ?len) (s, m)"
  let ?m1 = "snd (snd ?w1)"
  let ?s1 = "fst (snd ?w1)"
  have w1: "?w1 = advance_store 4 (host_bytes e 4 ?len) (s, m)"
    by (simp add: prim_write_def)
  have s1: "?s1 = s\<lparr>data_ptr := data_ptr s + 4\<rparr>"
    by (simp add: w1 advance_store_stream)
  have c1: "?m1 a \<noteq> m a \<Longrightarrow> data_ptr s \<le> a \<and> a < end_ptr s \<and> fst ?w1 = Inr ()"
    using advance_store_changes [of "host_bytes e 4 ?len" 4 s m a] by (simp add: w1)
  show ?thesis
  proof (cases "fst ?w1 = Inr () \<and> v \<noteq> []")
    case False
    then have "snd (snd (VectorSerializer_simple_write e pt v (s, m))) = ?m1"
      by (auto simp add: VectorSerializer_simple_write_def Let_def bnd_unit_cases ret_def)
    then show ?thesis using assms c1 by simp
  next
    case True
    let ?w2 = "advance_store ?dl (take (unat ?dl) (storage e v)) (?s1, ?m1)"
    have eq: "VectorSerializer_simple_write e pt v (s, m) = ?w2"
      using True by (simp add: VectorSerializer_simple_write_def Let_def bnd_unit_cases)
    have fit1: "data_ptr s + 4 \<le> end_ptr s"
      using True by (auto simp add: w1 advance_store_def advance_def Let_def split: if_splits)
    show ?thesis
    proof (cases "snd (snd ?w2) a = ?m1 a")
      case True
      then show ?thesis using assms c1 eq by simp
    next
      case False
      from advance_store_changes [of "take (unat ?dl) (storage e v)" ?dl ?s1 ?m1 a] False
      have "data_ptr ?s1 \<le> a \<and> a < data_ptr ?s1 + unat ?dl \<and> data_ptr ?s1 + unat ?dl \<le> end_ptr ?s1"
        by simp
      then show ?thesis by (simp add: s1)
    qed
  qed
qed

lemma vector_simple_write_overrun:
  assumes "fst (VectorSerializer_simple_write e pt v (s, m)) = Inl StreamOverrunException"
    and "data_ptr s + 4 \<le> a"
  shows "snd (snd (VectorSerializer_simple_write e pt v (s, m))) a = m a"
proof -
  let ?len = "of_nat (length v) :: u32"
  let ?dl = "?len * of_nat (sizeof pt)"
  let ?w1 = "prim_write e (UInt32 ?len) (s, m)"
  let ?m1 = "snd (snd ?w1)"
  let ?s1 = "fst (snd ?w1)"
  have w1: "?w1 = advance_store 4 (host_bytes e 4 ?len) (s, m)"
    by (simp add: prim_write_def)
  have c1: "?m1 a = m a"
    using advance_store_changes [of "host_bytes e 4 ?len" 4 s m a] assms(2) by (auto simp add: w1)
  show ?thesis
  proof (cases "fst ?w1 = Inr () \<and> v \<noteq> []")
    case False
    then have "snd (snd (VectorSerializer_simple_write e pt v (s, m))) = ?m1"
      by (auto simp add: VectorSerializer_simple_write_def Let_def bnd_unit_cases ret_def)
    then show ?thesis using c1 by simp
  next
    case True
    let ?w2 = "advance_store ?dl (take (unat ?dl) (storage e v)) (?s1, ?m1)"
    have eq: "VectorSerializer_simple_write e pt v (s, m) = ?w2"
      using True by (simp add: VectorSerializer_simple_write_def Let_def bnd_unit_cases)
    have "snd (snd ?w2) = ?m1"
      using assms(1) unfolding eq by (rule advance_store_overrun)
    then show ?thesis using c1 eq by simp
  qed
qed

lemma array_simple_write_changes:
  assumes "snd (snd (ArraySerializer_simple_write e pt v (s, m))) a \<noteq> m a"
  shows "data_ptr s \<le> a \<and> a < end_ptr s"
  using advance_store_changes
    [of "take (unat (of_nat (length v * sizeof pt) :: u32)) (storage e v)"
        "of_nat (length v * sizeof pt)" s m a] assms
  by (simp add: ArraySerializer_simple_write_def Let_def)

lemma array_simple_write_overrun:
  "fst (ArraySerializer_simple_write e pt v (s, m)) = Inl StreamOverrunException \<Longrightarrow>
   snd (snd (ArraySerializer_simple_write e pt v (s, m))) = m"
  unfolding ArraySerializer_simple_write_def Let_def by (rule advance_store_overrun)

lemma advance_load_within:
  assumes "\<And>a. data_ptr s \<le> a \<Longrightarrow> a < end_ptr s \<Longrightarrow> m1 a = m2 a" and "n \<le> unat len"
  shows "advance_load m1 len n s = advance_load m2 len n s"
proof (cases "data_ptr s + unat len \<le> end_ptr s")
  case True
  have "read_mem m1 (data_ptr s) n = read_mem m2 (data_ptr s) n"
    using True assms by (intro read_mem_cong) simp_all
  then show ?thesis
    using True by (simp add: advance_load_def advance_ok)
next
  case False
  then show ?thesis by (simp add: advance_load_def advance_fail)
qed

lemma advance_load_stream:
  "snd (advance_load m len n s) = s\<lparr>data_ptr := data_ptr s + unat len\<rparr>"
  by (simp add: advance_load_def advance_def Let_def)

lemma read_uint32_within:
  assumes "\<And>a. data_ptr s \<le> a \<Longrightarrow> a < end_ptr s \<Longrightarrow> m1 a = m2 a"
  shows "read_uint32 e m1 s = read_uint32 e m2 s"
  unfolding read_uint32_def bnd_def
  using advance_load_within [of s m1 m2 4 4] assms by simp

lemma read_uint32_stream:
  "snd (read_uint32 e m s) = s\<lparr>data_ptr := data_ptr s + 4\<rparr>"
  using advance_load_stream [of m 4 4 s]
  by (cases "advance_load m 4 4 s") (auto simp add: read_uint32_def bnd_def ret_def split: sum.splits)

lemma vector_simple_read_within:
  assumes "\<And>a. data_ptr s \<le> a \<Longrightarrow> a < end_ptr s \<Longrightarrow> m1 a = m2 a"
  shows "VectorSerializer_simple_read e m1 pt s = VectorSerializer_simple_read e m2 pt s"
proof -
  have r: "read_uint32 e m1 s = read_uint32 e m2 s"
    using assms by (rule read_uint32_within)
  obtain r1 s1 where rd: "read_uint32 e m2 s = (r1, s1)"
    by (cases "read_uint32 e m2 s")
  have s1: "s1 = s\<lparr>data_ptr := data_ptr s + 4\<rparr>"
    using read_uint32_stream [of e m2 s] rd by simp
  have l: "\<And>len n. n \<le> unat len \<Longrightarrow> advance_load m1 len n s1 = advance_load m2 len n s1"
    using assms by (intro advance_load_within) (simp_all add: s1)
  show ?thesis
    unfolding VectorSerializer_simple_read_def Let_def bnd_def r rd
    by (cases r1) (simp_all add: l)
qed

lemma array_simple_read_within:
  assumes "\<And>a. data_ptr s \<le> a \<Longrightarrow> a < end_ptr s \<Longrightarrow> m1 a = m2 a"
  shows "ArraySerializer_simple_read e m1 pt N s = ArraySerializer_simple_read e m2 pt N s"
  unfolding ArraySerializer_simple_read_def Let_def bnd_def
  using advance_load_within [of s m1 m2 "unat (of_nat (N * sizeof pt) :: u32)" "of_nat (N * sizeof pt)"] assms
  by simp


lemma advance_store_fail:
  "end_ptr s < data_ptr s + unat len \<Longrightarrow>
   advance_store len src (s, m) = (Inl StreamOverrunException, (s\<lparr>data_ptr := data_ptr s + unat len\<rparr>, m))"
  by (simp add: advance_store_def advance_fail)

lemma advance_store_ok:
  "data_ptr s + unat len \<le> end_ptr s \<Longrightarrow>
   advance_store len src (s, m) = (Inr (), (s\<lparr>data_ptr := data_ptr s + unat len\<rparr>, memcpy (data_ptr s) src m))"
  by (simp add: advance_store_def advance_ok)

lemma advance_load_fail:
  "end_ptr s < data_ptr s + unat len \<Longrightarrow>
   advance_load m len n s = (Inl StreamOverrunException, s\<lparr>data_ptr := data_ptr s + unat len\<rparr>)"
  by (simp add: advance_load_def advance_fail)

lemma advance_load_ok:
  "data_ptr s + unat len \<le> end_ptr s \<Longrightarrow>
   advance_load m len n s = (Inr (read_mem m (data_ptr s) n), s\<lparr>data_ptr := data_ptr s + unat len\<rparr>)"
  by (simp add: advance_load_def advance_ok)

lemma array_simple_write_fail:
  "end_ptr s < data_ptr s + unat (of_nat (length v * sizeof pt) :: u32) \<Longrightarrow>
   ArraySerializer_simple_write e pt v (s, m) =
     (Inl StreamOverrunException,
      (s\<lparr>data_ptr := data_ptr s + unat (of_nat (length v * sizeof pt) :: u32)\<rparr>, m))"
  unfolding ArraySerializer_simple_write_def Let_def by (rule advance_store_fail)

lemma array_simple_write_ok:
  "data_ptr s + unat (of_nat (length v * sizeof pt) :: u32) \<le> end_ptr s \<Longrightarrow>
   ArraySerializer_simple_write e pt v (s, m) =
     (Inr (),
      (s\<lparr>data_ptr := data_ptr s + unat (of_nat (length v * sizeof pt) :: u32)\<rparr>,
       memcpy (data_ptr s) (take (unat (of_nat (length v * sizeof pt) :: u32)) (storage e v)) m))"
  unfolding ArraySerializer_simple_write_def Let_def by (rule advance_store_ok)

lemma count_write_fail:
  "end_ptr s < data_ptr s + 4 \<Longrightarrow>
   prim_write e (UInt32 w) (s, m) = (Inl StreamOverrunException, (s\<lparr>data_ptr := data_ptr s + 4\<rparr>, m))"
  using advance_store_fail [of s 4 "object_bytes e (UInt32 w)" m] by (simp add: prim_write_def)

lemma count_write_ok:
  "data_ptr s + 4 \<le> end_ptr s \<Longrightarrow>
   prim_write e (UInt32 w) (s, m) =
     (Inr (), (s\<lparr>data_ptr := data_ptr s + 4\<rparr>, memcpy (data_ptr s) (host_bytes e 4 w) m))"
  using prim_write_ok [of s "UInt32 w" e m] by simp

lemma vector_simple_write_count_fail:
  "end_ptr s < data_ptr s + 4 \<Longrightarrow>
   VectorSerializer_simple_write e pt v (s, m) =
     (Inl StreamOverrunException, (s\<lparr>data_ptr := data_ptr s + 4\<rparr>, m))"
  by (simp add: VectorSerializer_simple_write_def Let_def bnd_def count_write_fail)

lemma vector_simple_write_copy_fail:
  assumes "data_ptr s + 4 \<le> end_ptr s" and "v \<noteq> []"
    and "end_ptr s < data_ptr s + 4 + unat ((of_nat (length v) :: u32) * of_nat (sizeof pt))"
  shows "VectorSerializer_simple_write e pt v (s, m) =
     (Inl StreamOverrunException,
      (s\<lparr>data_ptr := data_ptr s + 4 + unat ((of_nat (length v) :: u32) * of_nat (sizeof pt))\<rparr>,
       memcpy (data_ptr s) (host_bytes e 4 (of_nat (length v) :: u32)) m))"
  using assms
  by (simp add: VectorSerializer_simple_write_def Let_def bnd_def count_write_ok advance_store_fail)

lemma vector_simple_write_ok:
  assumes "data_ptr s + 4 \<le> end_ptr s" and "v \<noteq> []"
    and "data_ptr s + 4 + unat ((of_nat (length v) :: u32) * of_nat (sizeof pt)) \<le> end_ptr s"
  shows "VectorSerializer_simple_write e pt v (s, m) =
     (Inr (),
      (s\<lparr>data_ptr := data_ptr s + 4 + unat ((of_nat (length v) :: u32) * of_nat (sizeof pt))\<rparr>,
       memcpy (data_ptr s + 4)
         (take (unat ((of_nat (length v) :: u32) * of_nat (sizeof pt))) (storage e v))
         (memcpy (data_ptr s) (host_bytes e 4 (of_nat (length v) :: u32)) m)))"
  using assms
  by (simp add: VectorSerializer_simple_write_def Let_def bnd_def count_write_ok advance_store_ok)

lemma vector_simple_write_empty:
  assumes "data_ptr s + 4 \<le> end_ptr s"
  shows "VectorSerializer_simple_write e pt [] (s, m) =
     (Inr (), (s\<lparr>data_ptr := data_ptr s + 4\<rparr>, memcpy (data_ptr s) (host_bytes e 4 (0 :: u32)) m))"
  using assms
  by (simp add: VectorSerializer_simple_write_def Let_def bnd_def count_write_ok ret_def)

lemma array_simple_read_fail:
  "end_ptr s < data_ptr s + unat (of_nat (N * sizeof pt) :: u32) \<Longrightarrow>
   ArraySerializer_simple_read e m pt N s =
     (Inl StreamOverrunException, s\<lparr>data_ptr := data_ptr s + unat (of_nat (N * sizeof pt) :: u32)\<rparr>)"
  by (simp add: ArraySerializer_simple_read_def Let_def bnd_def advance_load_fail)

lemma array_simple_read_ok:
  "data_ptr s + unat (of_nat (N * sizeof pt) :: u32) \<le> end_ptr s \<Longrightarrow>
   ArraySerializer_simple_read e m pt N s =
     (Inr (from_storage e pt N
            (read_mem m (data_ptr s) (unat (of_nat (N * sizeof pt) :: u32))
               @ replicate (N * sizeof pt - unat (of_nat (N * sizeof pt) :: u32)) 0)),
      s\<lparr>data_ptr := data_ptr s + unat (of_nat (N * sizeof pt) :: u32)\<rparr>)"
  by (simp add: ArraySerializer_simple_read_def Let_def bnd_def advance_load_ok ret_def)

lemma read_uint32_fail:
  "end_ptr s < data_ptr s + 4 \<Longrightarrow>
   read_uint32 e m s = (Inl StreamOverrunException, s\<lparr>data_ptr := data_ptr s + 4\<rparr>)"
  using advance_load_fail [of s 4 m 4] by (simp add: read_uint32_def bnd_def)

lemma read_uint32_ok:
  "data_ptr s + 4 \<le> end_ptr s \<Longrightarrow>
   read_uint32 e m s = (Inr (host_word e (read_mem m (data_ptr s) 4)), s\<lparr>data_ptr := data_ptr s + 4\<rparr>)"
  using advance_load_ok [of s 4 m 4] by (simp add: read_uint32_def bnd_def ret_def)

lemma vector_simple_read_count_fail:
  "end_ptr s < data_ptr s + 4 \<Longrightarrow>
   VectorSerializer_simple_read e m pt s = (Inl StreamOverrunException, s\<lparr>data_ptr := data_ptr s + 4\<rparr>)"
  by (simp add: VectorSerializer_simple_read_def bnd_def read_uint32_fail)

lemma vector_simple_read_empty:
  "data_ptr s + 4 \<le> end_ptr s \<Longrightarrow> host_word e (read_mem m (data_ptr s) 4) = (0 :: u32) \<Longrightarrow>
   VectorSerializer_simple_read e m pt s = (Inr [], s\<lparr>data_ptr := data_ptr s + 4\<rparr>)"
  by (simp add: VectorSerializer_simple_read_def bnd_def read_uint32_ok ret_def)

lemma vector_simple_read_copy_fail:
  assumes "data_ptr s + 4 \<le> end_ptr s" and "host_word e (read_mem m (data_ptr s) 4) \<noteq> (0 :: u32)"
    and "end_ptr s < data_ptr s + 4
           + unat (of_nat (sizeof pt) * (host_word e (read_mem m (data_ptr s) 4) :: u32))"
  shows "fst (VectorSerializer_simple_read e m pt s) = Inl StreamOverrunException"
  using assms
  by (simp add: VectorSerializer_simple_read_def Let_def bnd_def read_uint32_ok advance_load_fail
      word_greater_zero_iff)

lemma vector_simple_read_ok:
  assumes "data_ptr s + 4 \<le> end_ptr s" and "host_word e (read_mem m (data_ptr s) 4) \<noteq> (0 :: u32)"
    and "data_ptr s + 4
           + unat (of_nat (sizeof pt) * (host_word e (read_mem m (data_ptr s) 4) :: u32)) \<le> end_ptr s"
  shows "VectorSerializer_simple_read e m pt s =
     (Inr (from_storage e pt (unat (host_word e (read_mem m (data_ptr s) 4) :: u32))
            (read_mem m (data_ptr s + 4)
               (unat (of_nat (sizeof pt) * (host_word e (read_mem m (data_ptr s) 4) :: u32)))
             @ replicate (unat (host_word e (read_mem m (data_ptr s) 4) :: u32) * sizeof pt
                   - unat (of_nat (sizeof pt) * (host_word e (read_mem m (data_ptr s) 4) :: u32))) 0)),
      s\<lparr>data_ptr := data_ptr s + 4
           + unat (of_nat (sizeof pt) * (host_word e (read_mem m (data_ptr s) 4) :: u32))\<rparr>)"
  using assms
  by (simp add: VectorSerializer_simple_read_def Let_def bnd_def read_uint32_ok advance_load_ok
      word_greater_zero_iff ret_def)


lemma array_simple_write_cases:
  "ArraySerializer_simple_write e pt v (s, m) =
     (if end_ptr s < data_ptr s + unat (of_nat (length v * sizeof pt) :: u32)
      then (Inl StreamOverrunException,
            (s\<lparr>data_ptr := data_ptr s + unat (of_nat (length v * sizeof pt) :: u32)\<rparr>, m))
      else (Inr (),
            (s\<lparr>data_ptr := data_ptr s + unat (of_nat (length v * sizeof pt) :: u32)\<rparr>,
             memcpy (data_ptr s) (take (unat (of_nat (length v * sizeof pt) :: u32)) (storage e v)) m)))"
  by (simp add: array_simple_write_fail array_simple_write_ok not_less)

lemma vector_simple_write_cases:
  "VectorSerializer_simple_write e pt v (s, m) =
     (if end_ptr s < data_ptr s + 4
      then (Inl StreamOverrunException, (s\<lparr>data_ptr := data_ptr s + 4\<rparr>, m))
      else if v = []
      then (Inr (), (s\<lparr>data_ptr := data_ptr s + 4\<rparr>, memcpy (data_ptr s) (host_bytes e 4 (0 :: u32)) m))
      else if end_ptr s < data_ptr s + 4 + unat ((of_nat (length v) :: u32) * of_nat (sizeof pt))
      then (Inl StreamOverrunException,
            (s\<lparr>data_ptr := data_ptr s + 4 + unat ((of_nat (length v) :: u32) * of_nat (sizeof pt))\<rparr>,
             memcpy (data_ptr s) (host_bytes e 4 (of_nat (length v) :: u32)) m))
      else (Inr (),
            (s\<lparr>data_ptr := data_ptr s + 4 + unat ((of_nat (length v) :: u32) * of_nat (sizeof pt))\<rparr>,
             memcpy (data_ptr s + 4)
               (take (unat ((of_nat (length v) :: u32) * of_nat (sizeof pt))) (storage e v))
               (memcpy (data_ptr s) (host_bytes e 4 (of_nat (length v) :: u32)) m))))"
proof (cases "end_ptr s < data_ptr s + 4")
  case True
  then show ?thesis by (simp add: vector_simple_write_count_fail)
next
  case fits: False
  show ?thesis
  proof (cases "v = []")
    case True
    then show ?thesis using fits by (simp add: vector_simple_write_empty not_less)
  next
    case False
    then show ?thesis
      using fits vector_simple_write_copy_fail [of s v pt e m] vector_simple_write_ok [of s v pt e m]
      by (simp add: not_less)
  qed
qed

lemma array_simple_read_cases:
  "ArraySerializer_simple_read e m pt N s =
     (if end_ptr s < data_ptr s + unat (of_nat (N * sizeof pt) :: u32)
      then (Inl StreamOverrunException,
            s\<lparr>data_ptr := data_ptr s + unat (of_nat (N * sizeof pt) :: u32)\<rparr>)
      else (Inr (from_storage e pt N
                  (read_mem m (data_ptr s) (unat (of_nat (N * sizeof pt) :: u32))
                     @ replicate (N * sizeof pt - unat (of_nat (N * sizeof pt) :: u32)) 0)),
            s\<lparr>data_ptr := data_ptr s + unat (of_nat (N * sizeof pt) :: u32)\<rparr>))"
  by (simp add: array_simple_read_fail array_simple_read_ok not_less)

lemma vector_simple_read_cases:
  "fst (VectorSerializer_simple_read e m pt s) =
     (if end_ptr s < data_ptr s + 4 then Inl StreamOverrunException
      else if host_word e (read_mem m (data_ptr s) 4) = (0 :: u32) then Inr []
      else if end_ptr s < data_ptr s + 4
                + unat (of_nat (sizeof pt) * (host_word e (read_mem m (data_ptr s) 4) :: u32))
      then Inl StreamOverrunException
      else Inr (from_storage e pt (unat (host_word e (read_mem m (data_ptr s) 4) :: u32))
                 (read_mem m (data_ptr s + 4)
                    (unat (of_nat (sizeof pt) * (host_word e (read_mem m (data_ptr s) 4) :: u32)))
                  @ replicate (unat (host_word e (read_mem m (data_ptr s) 4) :: u32) * sizeof pt
                        - unat (of_nat (sizeof pt) * (host_word e (read_mem m (data_ptr s) 4) :: u32))) 0)))"
proof (cases "end_ptr s < data_ptr s + 4")
  case True
  then show ?thesis by (simp add: vector_simple_read_count_fail)
next
  case fits: False
  show ?thesis
  proof (cases "host_word e (read_mem m (data_ptr s) 4) = (0 :: u32)")
    case True
    then show ?thesis using fits by (simp add: vector_simple_read_empty not_less)
  next
    case False
    then show ?thesis
      using fits vector_simple_read_copy_fail [of s e m pt] vector_simple_read_ok [of s e m pt]
      by (simp add: not_less)
  qed
qed

text \<open>
  C8. In the bulk-copy paths for vectors and arrays of simple elements the copy is the
  argument-evaluated \<^verbatim>\<open>memcpy(stream.advance(data_len), ..., data_len)\<close>, so the bounds
  check of \<^verbatim>\<open>advance\<close> is complete before the copy runs. Every byte a write changes
  lies between the cursor and the end bound of the stream, and a read takes nothing from
  outside that span. When cursor + \<^verbatim>\<open>data_len\<close> exceeds the end bound, the pass raises
  the overrun failure and no byte of the bulk copy is transferred: an array write leaves
  memory as it was, a vector write has stored its 4-byte count and nothing else, and a
  read yields no value. Otherwise an array write stores the first \<^verbatim>\<open>data_len\<close> bytes of
  the elements' storage at the cursor, a vector write stores them behind the count, and
  a read returns the elements made of the \<^verbatim>\<open>data_len\<close> bytes at the cursor (behind the
  count, for a vector).
\<close>

theorem bulk_copy_within_buffer:
  "(snd (snd (VectorSerializer_simple_write e pt v (s, m))) a \<noteq> m a \<longrightarrow>
      data_ptr s \<le> a \<and> a < end_ptr s) \<and>
   (fst (VectorSerializer_simple_write e pt v (s, m)) = Inl StreamOverrunException \<and> data_ptr s + 4 \<le> a \<longrightarrow>
      snd (snd (VectorSerializer_simple_write e pt v (s, m))) a = m a) \<and>
   (snd (snd (ArraySerializer_simple_write e pt v (s, m))) a \<noteq> m a \<longrightarrow>
      data_ptr s \<le> a \<and> a < end_ptr s) \<and>
   (fst (ArraySerializer_simple_write e pt v (s, m)) = Inl StreamOverrunException \<longrightarrow>
      snd (snd (ArraySerializer_simple_write e pt v (s, m))) = m) \<and>
   ((\<forall>b. data_ptr s \<le> b \<and> b < end_ptr s \<longrightarrow> m b = mm b) \<longrightarrow>
      VectorSerializer_simple_read e m pt s = VectorSerializer_simple_read e mm pt s \<and>
      ArraySerializer_simple_read e m pt N s = ArraySerializer_simple_read e mm pt N s) \<and>
   ArraySerializer_simple_write e pt v (s, m) =
     (if end_ptr s < data_ptr s + unat (of_nat (length v * sizeof pt) :: u32)
      then (Inl StreamOverrunException,
            (s\<lparr>data_ptr := data_ptr s + unat (of_nat (length v * sizeof pt) :: u32)\<rparr>, m))
      else (Inr (),
            (s\<lparr>data_ptr := data_ptr s + unat (of_nat (length v * sizeof pt) :: u32)\<rparr>,
             memcpy (data_ptr s) (take (unat (of_nat (length v * sizeof pt) :: u32)) (storage e v)) m))) \<and>
   VectorSerializer_simple_write e pt v (s, m) =
     (if end_ptr s < data_ptr s + 4
      then (Inl StreamOverrunException, (s\<lparr>data_ptr := data_ptr s + 4\<rparr>, m))
      else if v = []
      then (Inr (), (s\<lparr>data_ptr := data_ptr s + 4\<rparr>, memcpy (data_ptr s) (host_bytes e 4 (0 :: u32)) m))
      else if end_ptr s < data_ptr s + 4 + unat ((of_nat (length v) :: u32) * of_nat (sizeof pt))
      then (Inl StreamOverrunException,
            (s\<lparr>data_ptr := data_ptr s + 4 + unat ((of_nat (length v) :: u32) * of_nat (sizeof pt))\<rparr>,
             memcpy (data_ptr s) (host_bytes e 4 (of_nat (length v) :: u32)) m))
      else (Inr (),
            (s\<lparr>data_ptr := data_ptr s + 4 + unat ((of_nat (length v) :: u32) * of_nat (sizeof pt))\<rparr>,
             memcpy (data_ptr s + 4)
               (take (unat ((of_nat (length v) :: u32) * of_nat (sizeof pt))) (storage e v))
               (memcpy (data_ptr s) (host_bytes e 4 (of_nat (length v) :: u32)) m)))) \<and>
   ArraySerializer_simple_read e m pt N s =
     (if end_ptr s < data_ptr s + unat (of_nat (N * sizeof pt) :: u32)
      then (Inl StreamOverrunException,
            s\<lparr>data_ptr := data_ptr s + unat (of_nat (N * sizeof pt) :: u32)\<rparr>)
      else (Inr (from_storage e pt N
                  (read_mem m (data_ptr s) (unat (of_nat (N * sizeof pt) :: u32))
                     @ replicate (N * sizeof pt - unat (of_nat (N * sizeof pt) :: u32)) 0)),
            s\<lparr>data_ptr := data_ptr s + unat (of_nat (N * sizeof pt) :: u32)\<rparr>)) \<and>
   fst (VectorSerializer_simple_read e m pt s) =
     (if end_ptr s < data_ptr s + 4 then Inl StreamOverrunException
      else if host_word e (read_mem m (data_ptr s) 4) = (0 :: u32) then Inr []
      else if end_ptr s < data_ptr s + 4
                + unat (of_nat (sizeof pt) * (host_word e (read_mem m (data_ptr s) 4) :: u32))
      then Inl StreamOverrunException
      else Inr (from_storage e pt (unat (host_word e (read_mem m (data_ptr s) 4) :: u32))
                 (read_mem m (data_ptr s + 4)
                    (unat (of_nat (sizeof pt) * (host_word e (read_mem m (data_ptr s) 4) :: u32)))
                  @ replicate (unat (host_word e (read_mem m (data_ptr s) 4) :: u32) * sizeof pt
                        - unat (of_nat (sizeof pt) * (host_word e (read_mem m (data_ptr s) 4) :: u32))) 0)))"
proof -
  have footprint:
    "snd (snd (VectorSerializer_simple_write e pt v (s, m))) a \<noteq> m a \<longrightarrow>
       data_ptr s \<le> a \<and> a < end_ptr s"
    "fst (VectorSerializer_simple_write e pt v (s, m)) = Inl StreamOverrunException \<and> data_ptr s + 4 \<le> a \<longrightarrow>
       snd (snd (VectorSerializer_simple_write e pt v (s, m))) a = m a"
    "snd (snd (ArraySerializer_simple_write e pt v (s, m))) a \<noteq> m a \<longrightarrow>
       data_ptr s \<le> a \<and> a < end_ptr s"
    "fst (ArraySerializer_simple_write e pt v (s, m)) = Inl StreamOverrunException \<longrightarrow>
       snd (snd (ArraySerializer_simple_write e pt v (s, m))) = m"
    "(\<forall>b. data_ptr s \<le> b \<and> b < end_ptr s \<longrightarrow> m b = mm b) \<longrightarrow>
       VectorSerializer_simple_read e m pt s = VectorSerializer_simple_read e mm pt s \<and>
       ArraySerializer_simple_read e m pt N s = ArraySerializer_simple_read e mm pt N s"
    using vector_simple_write_changes [of e pt v s m a]
      vector_simple_write_overrun [of e pt v s m a]
      array_simple_write_changes [of e pt v s m a]
      array_simple_write_overrun [of e pt v s m]
      vector_simple_read_within [of s m mm e pt]
      array_simple_read_within [of s m mm e pt N]
    by blast+
  show ?thesis
    by (intro conjI footprint array_simple_write_cases vector_simple_write_cases
        array_simple_read_cases vector_simple_read_cases)
qed


theorem bulk_copy_within_buffer_witness:
  "snd (snd (VectorSerializer_simple_write LittleEndian TUInt16 [VPrim (UInt16 258), VPrim (UInt16 772)]
       (Stream_init 10 8, zero_memory))) 14 \<noteq> zero_memory 14 \<and>
   data_ptr (Stream_init 10 8) \<le> 14 \<and> 14 < end_ptr (Stream_init 10 8) \<and>
   end_ptr (Stream_init 10 6) < data_ptr (Stream_init 10 6) + 4 + 4 \<and>
   fst (VectorSerializer_simple_write LittleEndian TUInt16 [VPrim (UInt16 258), VPrim (UInt16 772)]
       (Stream_init 10 6, zero_memory)) = Inl StreamOverrunException \<and>
   snd (snd (VectorSerializer_simple_write LittleEndian TUInt16 [VPrim (UInt16 258), VPrim (UInt16 772)]
       (Stream_init 10 6, zero_memory))) 14 = zero_memory 14 \<and>
   snd (snd (VectorSerializer_simple_write LittleEndian TUInt16 [VPrim (UInt16 258), VPrim (UInt16 772)]
       (Stream_init 10 8, zero_memory))) = memcpy 14 [2, 1, 4, 3] (memcpy 10 [2, 0, 0, 0] zero_memory) \<and>
   snd (snd (ArraySerializer_simple_write LittleEndian TUInt16 [VPrim (UInt16 258), VPrim (UInt16 772)]
       (Stream_init 10 8, zero_memory))) 10 \<noteq> zero_memory 10 \<and>
   end_ptr (Stream_init 10 3) < data_ptr (Stream_init 10 3) + 4 \<and>
   fst (ArraySerializer_simple_write LittleEndian TUInt16 [VPrim (UInt16 258), VPrim (UInt16 772)]
       (Stream_init 10 3, zero_memory)) = Inl StreamOverrunException \<and>
   snd (snd (ArraySerializer_simple_write LittleEndian TUInt16 [VPrim (UInt16 258), VPrim (UInt16 772)]
       (Stream_init 10 3, zero_memory))) = zero_memory \<and>
   snd (snd (ArraySerializer_simple_write LittleEndian TUInt16 [VPrim (UInt16 258), VPrim (UInt16 772)]
       (Stream_init 10 8, zero_memory))) = memcpy 10 [2, 1, 4, 3] zero_memory \<and>
   zero_memory 100 \<noteq> memcpy 100 [1] zero_memory 100 \<and>
   VectorSerializer_simple_read LittleEndian zero_memory TUInt16 (Stream_init 10 8)
     = VectorSerializer_simple_read LittleEndian (memcpy 100 [1] zero_memory) TUInt16 (Stream_init 10 8) \<and>
   fst (ArraySerializer_simple_read LittleEndian (memcpy 10 [2, 1, 4, 3] zero_memory) TUInt16 2
       (Stream_init 10 3)) = Inl StreamOverrunException \<and>
   fst (ArraySerializer_simple_read LittleEndian (memcpy 10 [2, 1, 4, 3] zero_memory) TUInt16 2
       (Stream_init 10 8)) = Inr [VPrim (UInt16 258), VPrim (UInt16 772)] \<and>
   fst (VectorSerializer_simple_read LittleEndian
       (memcpy 14 [2, 1, 4, 3] (memcpy 10 [2, 0, 0, 0] zero_memory)) TUInt16
       (Stream_init 10 6)) = Inl StreamOverrunException \<and>
   fst (VectorSerializer_simple_read LittleEndian
       (memcpy 14 [2, 1, 4, 3] (memcpy 10 [2, 0, 0, 0] zero_memory)) TUInt16
       (Stream_init 10 8)) = Inr [VPrim (UInt16 258), VPrim (UInt16 772)]"
proof -
  let ?v = "[VPrim (UInt16 258), VPrim (UInt16 772)]"
  let ?ma = "memcpy 10 [2, 1, 4, 3] zero_memory"
  let ?mv = "memcpy 14 [2, 1, 4, 3] (memcpy 10 [2, 0, 0, 0] zero_memory)"
  note t8 = bulk_copy_within_buffer [where e = LittleEndian and pt = TUInt16 and v = ?v
      and s = "Stream_init 10 8" and m = zero_memory and a = 14 and mm = "memcpy 100 [1] zero_memory"]
  note t6 = bulk_copy_within_buffer [where e = LittleEndian and pt = TUInt16 and v = ?v
      and s = "Stream_init 10 6" and m = zero_memory and a = 14]
  note t3 = bulk_copy_within_buffer [where e = LittleEndian and pt = TUInt16 and v = ?v
      and s = "Stream_init 10 3" and m = zero_memory]
  note ta3 = bulk_copy_within_buffer [where e = LittleEndian and pt = TUInt16 and N = 2
      and s = "Stream_init 10 3" and m = ?ma]
  note ta8 = bulk_copy_within_buffer [where e = LittleEndian and pt = TUInt16 and N = 2
      and s = "Stream_init 10 8" and m = ?ma]
  note tv6 = bulk_copy_within_buffer [where e = LittleEndian and pt = TUInt16
      and s = "Stream_init 10 6" and m = ?mv]
  note tv8 = bulk_copy_within_buffer [where e = LittleEndian and pt = TUInt16
      and s = "Stream_init 10 8" and m = ?mv]
  have st: "storage LittleEndian ?v = [2, 1, 4, 3]"
    by (simp add: storage_def host_bytes_def le_bytes_numeral)
  have cnt: "host_bytes LittleEndian 4 (2 :: u32) = [2, 0, 0, 0]"
    by (simp add: host_bytes_def le_bytes_numeral)
  have i3: "end_ptr (Stream_init 10 3) < data_ptr (Stream_init 10 3) + 4"
    and i6: "end_ptr (Stream_init 10 6) < data_ptr (Stream_init 10 6) + 4 + 4"
    and i6a: "data_ptr (Stream_init 10 6) + 4 \<le> 14"
    by (simp_all add: Stream_init_def)
  have wv8: "snd (snd (VectorSerializer_simple_write LittleEndian TUInt16 ?v (Stream_init 10 8, zero_memory)))
      = ?mv"
    using t8 by (simp add: Stream_init_def st cnt)
  have wv6: "fst (VectorSerializer_simple_write LittleEndian TUInt16 ?v (Stream_init 10 6, zero_memory))
      = Inl StreamOverrunException"
    using t6 by (simp add: Stream_init_def)
  have wa8: "snd (snd (ArraySerializer_simple_write LittleEndian TUInt16 ?v (Stream_init 10 8, zero_memory)))
      = ?ma"
    using t8 by (simp add: Stream_init_def st)
  have wa3: "fst (ArraySerializer_simple_write LittleEndian TUInt16 ?v (Stream_init 10 3, zero_memory))
      = Inl StreamOverrunException"
    using t3 by (simp add: Stream_init_def)
  have c1: "snd (snd (VectorSerializer_simple_write LittleEndian TUInt16 ?v
      (Stream_init 10 8, zero_memory))) 14 \<noteq> zero_memory 14"
    unfolding wv8 by (simp add: memcpy_def zero_memory_def)
  have c2: "snd (snd (ArraySerializer_simple_write LittleEndian TUInt16 ?v
      (Stream_init 10 8, zero_memory))) 10 \<noteq> zero_memory 10"
    unfolding wa8 by (simp add: memcpy_def zero_memory_def)
  have same: "\<forall>b. data_ptr (Stream_init 10 8) \<le> b \<and> b < end_ptr (Stream_init 10 8) \<longrightarrow>
      zero_memory b = memcpy 100 [1] zero_memory b"
    by (simp add: Stream_init_def memcpy_def)
  from t8 c1 have r1: "data_ptr (Stream_init 10 8) \<le> 14 \<and> 14 < end_ptr (Stream_init 10 8)"
    by blast
  from t6 wv6 i6a have r2: "snd (snd (VectorSerializer_simple_write LittleEndian TUInt16 ?v
      (Stream_init 10 6, zero_memory))) 14 = zero_memory 14"
    by blast
  from t3 wa3 have r3: "snd (snd (ArraySerializer_simple_write LittleEndian TUInt16 ?v
      (Stream_init 10 3, zero_memory))) = zero_memory"
    by blast
  from t8 same have r4: "VectorSerializer_simple_read LittleEndian zero_memory TUInt16 (Stream_init 10 8)
     = VectorSerializer_simple_read LittleEndian (memcpy 100 [1] zero_memory) TUInt16 (Stream_init 10 8)"
    by blast
  have diff: "zero_memory 100 \<noteq> memcpy 100 [1] zero_memory 100"
    by (simp add: memcpy_def zero_memory_def)
  have l4: "length [2, 1, 4, 3 :: u8] = 4" "length [2, 0, 0, 0 :: u8] = 4"
    by simp_all
  have ra: "read_mem ?ma 10 4 = [2, 1, 4, 3]"
    using read_mem_memcpy_same [of 10 "[2, 1, 4, 3]" zero_memory] unfolding l4 .
  have "read_mem ?mv 10 4 = read_mem (memcpy 10 [2, 0, 0, 0] zero_memory) 10 4"
    by (rule read_mem_cong) (simp add: memcpy_def)
  then have rv: "read_mem ?mv 10 4 = [2, 0, 0, 0]" "read_mem ?mv 14 4 = [2, 1, 4, 3]"
    using read_mem_memcpy_same [of 14 "[2, 1, 4, 3]" "memcpy 10 [2, 0, 0, 0] zero_memory"]
      read_mem_memcpy_same [of 10 "[2, 0, 0, 0]" zero_memory]
    unfolding l4 by simp_all
  have w: "host_word LittleEndian [2, 0, 0, 0] = (2 :: u32)"
    "host_word LittleEndian [2, 1] = (258 :: u16)" "host_word LittleEndian [4, 3] = (772 :: u16)"
    by (simp_all add: host_word_def)
  have fs: "from_storage LittleEndian TUInt16 2 [2, 1, 4, 3] = ?v"
    by (simp add: numeral_2_eq_2 w)
  have ar3: "fst (ArraySerializer_simple_read LittleEndian ?ma TUInt16 2 (Stream_init 10 3))
      = Inl StreamOverrunException"
    using ta3 by (simp add: Stream_init_def)
  have ar8: "fst (ArraySerializer_simple_read LittleEndian ?ma TUInt16 2 (Stream_init 10 8)) = Inr ?v"
    using ta8 by (simp add: Stream_init_def ra fs)
  have vr6: "fst (VectorSerializer_simple_read LittleEndian ?mv TUInt16 (Stream_init 10 6))
      = Inl StreamOverrunException"
    using tv6 by (simp add: Stream_init_def rv w)
  have vr8: "fst (VectorSerializer_simple_read LittleEndian ?mv TUInt16 (Stream_init 10 8)) = Inr ?v"
    using tv8 by (simp add: Stream_init_def rv w fs)
  from c1 r1 i6 wv6 r2 wv8 c2 i3 wa3 r3 wa8 diff r4 ar3 ar8 vr6 vr8 show ?thesis
    by blast
qed

section \<open>Bytes of a write pass\<close>

lemma writes_ret: "writes (ret ()) []"
  by (simp add: writes_def ret_def)

lemma writes_advance_store: "unat len = length src \<Longrightarrow> writes (advance_store len src) src"
  by (simp add: writes_def advance_store_def advance_ok)

lemma writes_bnd:
  assumes f: "writes f as" and g: "writes g bs"
  shows "writes (bnd f (\<lambda>u. g)) (as @ bs)"
  unfolding writes_def
proof (intro allI impI)
  fix s :: Stream and m :: memory
  assume fit: "data_ptr s + length (as @ bs) \<le> end_ptr s"
  let ?s1 = "s\<lparr>data_ptr := data_ptr s + length as\<rparr>"
  let ?m1 = "memcpy (data_ptr s) as m"
  have 1: "f (s, m) = (Inr (), (?s1, ?m1))"
    using f [unfolded writes_def, rule_format, of s m] fit by simp
  have 2: "g (?s1, ?m1) = (Inr (), (?s1\<lparr>data_ptr := data_ptr ?s1 + length bs\<rparr>, memcpy (data_ptr ?s1) bs ?m1))"
    using g [unfolded writes_def, rule_format, of ?s1 ?m1] fit by simp
  show "bnd f (\<lambda>u. g) (s, m) =
      (Inr (), (s\<lparr>data_ptr := data_ptr s + length (as @ bs)\<rparr>, memcpy (data_ptr s) (as @ bs) m))"
    by (simp add: bnd_def 1 2 memcpy_append add.assoc)
qed

lemma writes_seq: "writes f as \<Longrightarrow> writes g bs \<Longrightarrow> cs = as @ bs \<Longrightarrow> writes (bnd f (\<lambda>u. g)) cs"
  using writes_bnd by blast

lemma writes_then_ret: "writes f as \<Longrightarrow> writes (bnd f ret) as"
  using writes_seq [of f as "ret ()" "[]" as] by (simp add: writes_ret)

lemma writes_prim: "writes (prim_write e p) (object_bytes e p)"
  unfolding prim_write_def by (rule writes_advance_store) simp

lemma writes_count: "writes (prim_write e (UInt32 w)) (host_bytes e 4 w)"
  using writes_prim [of e "UInt32 w"] by simp

lemma writes_count_signed: "writes (prim_write e (Int32 w)) (host_bytes e 4 w)"
  using writes_prim [of e "Int32 w"] by simp

lemma unat_of_nat_32: "n < 2 ^ 32 \<Longrightarrow> unat (of_nat n :: u32) = n"
  by (simp add: unat_of_nat)

lemma object_of_simple: "type_of x = TPrim pt \<Longrightarrow> object_of e x = wire_bytes e x"
  using type_of_prim [of x pt] by auto

lemma length_object_of: "type_of x = TPrim pt \<Longrightarrow> length (object_of e x) = sizeof pt"
  using type_of_prim [of x pt] by auto

lemma storage_simple:
  assumes "\<forall>x \<in> set v. well_typed x \<and> type_of x = TPrim pt"
  shows "storage e v = concat (map (wire_bytes e) v)" and "length (storage e v) = length v * sizeof pt"
proof -
  have eq: "map (object_of e) v = map (wire_bytes e) v"
    using assms by (simp add: object_of_simple)
  show "storage e v = concat (map (wire_bytes e) v)"
    unfolding storage_def eq by (rule refl)
  have "sum_list (map (\<lambda>x. length (object_of e x)) v) = length v * sizeof pt"
    using assms by (intro sum_list_const) (simp add: length_object_of)
  then show "length (storage e v) = length v * sizeof pt"
    by (simp add: storage_def length_concat comp_def)
qed




lemma writes_vector_simple:
  assumes wt: "\<forall>x \<in> set v. well_typed x \<and> type_of x = TPrim pt"
    and small: "4 + length v * sizeof pt < 2 ^ 32"
  shows "writes (VectorSerializer_simple_write e pt v)
           (host_bytes e 4 (of_nat (length v) :: u32) @ concat (map (wire_bytes e) v))"
proof (cases "v = []")
  case True
  then show ?thesis
    by (simp add: VectorSerializer_simple_write_def writes_then_ret [OF writes_count])
next
  case False
  have dl: "unat ((of_nat (length v) :: u32) * of_nat (sizeof pt)) = length v * sizeof pt"
    using unat_of_nat_32 [of "length v * sizeof pt"] small by simp
  have st: "take (length v * sizeof pt) (storage e v) = concat (map (wire_bytes e) v)"
    using storage_simple [OF wt, of e] by simp
  have "writes (advance_store ((of_nat (length v) :: u32) * of_nat (sizeof pt))
          (concat (map (wire_bytes e) v))) (concat (map (wire_bytes e) v))"
    using storage_simple [OF wt, of e] dl by (intro writes_advance_store) simp
  then show ?thesis
    using False by (simp add: VectorSerializer_simple_write_def Let_def dl st writes_seq [OF writes_count])
qed

lemma writes_array_simple:
  assumes wt: "\<forall>x \<in> set v. well_typed x \<and> type_of x = TPrim pt"
    and small: "length v * sizeof pt < 2 ^ 32"
  shows "writes (ArraySerializer_simple_write e pt v) (concat (map (wire_bytes e) v))"
proof -
  have dl: "unat ((of_nat (length v) :: u32) * of_nat (sizeof pt)) = length v * sizeof pt"
    using unat_of_nat_32 [of "length v * sizeof pt"] small by simp
  have st: "take (length v * sizeof pt) (storage e v) = concat (map (wire_bytes e) v)"
    using storage_simple [OF wt, of e] by simp
  have "writes (advance_store ((of_nat (length v) :: u32) * of_nat (sizeof pt))
          (concat (map (wire_bytes e) v))) (concat (map (wire_bytes e) v))"
    using storage_simple [OF wt, of e] dl by (intro writes_advance_store) simp
  then show ?thesis
    by (simp add: ArraySerializer_simple_write_def Let_def dl st)
qed

lemma writes_string:
  assumes "length str < 2 ^ 32"
  shows "writes (if length str > 0 then advance_store (of_nat (length str)) str else ret ()) str"
proof (cases "length str > 0")
  case True
  have "unat (of_nat (length str) :: u32) = length str"
    using assms by (rule unat_of_nat_32)
  then have "writes (advance_store (of_nat (length str)) str) str"
    by (rule writes_advance_store)
  then show ?thesis using True by simp
next
  case False
  then show ?thesis by (simp add: writes_ret)
qed

lemma writes_serialize:
  "well_typed v \<Longrightarrow> true_size v < 2 ^ 32 \<Longrightarrow> writes (serialize e v) (wire_bytes e v)"
  "(\<forall>x \<in> set vs. well_typed x) \<Longrightarrow> sum_list (map true_size vs) < 2 ^ 32 \<Longrightarrow>
     writes (serialize_each e vs) (concat (map (wire_bytes e) vs))"
proof (induction e v and e vs rule: serialize_serialize_each.induct)
  case (1 e p)
  show ?case by (simp add: writes_prim)
next
  case (2 e v)
  have "writes (advance_store 1 [if v then 1 else 0]) [if v then 1 else 0]"
    by (rule writes_advance_store) simp
  then show ?case by simp
next
  case (3 e str)
  then have "length str < 2 ^ 32" by simp
  then show ?case
    unfolding serialize.simps wire_bytes.simps
    by (intro writes_bnd writes_count writes_string)
next
  case (4 e sec nsec)
  show ?case
    unfolding serialize.simps wire_bytes.simps by (intro writes_bnd writes_count)
next
  case (5 e sec nsec)
  show ?case
    unfolding serialize.simps wire_bytes.simps by (intro writes_bnd writes_count_signed)
next
  case (6 e T v)
  have wt: "\<forall>x \<in> set v. well_typed x \<and> type_of x = T"
    using "6.prems"(1) by simp
  have small: "sum_list (map true_size v) < 2 ^ 32"
    using "6.prems"(2) by simp
  have each: "\<not> IsSimple T \<Longrightarrow> writes (serialize_each e v) (concat (map (wire_bytes e) v))"
    using "6.IH" wt small by (cases "IsFixedSize T"; cases T) simp_all
  show ?case
  proof (cases T)
    case (TPrim pt)
    have "sum_list (map true_size v) = length v * sizeof pt"
      using wt TPrim by (intro sum_true_size_simple) simp
    then have "4 + length v * sizeof pt < 2 ^ 32"
      using "6.prems"(2) by simp
    then show ?thesis
      using TPrim wt by (simp add: writes_vector_simple)
  qed (use each in \<open>simp_all add: writes_seq [OF writes_count]\<close>)
next
  case (7 e T v)
  have wt: "\<forall>x \<in> set v. well_typed x \<and> type_of x = T"
    using "7.prems"(1) by simp
  have small: "sum_list (map true_size v) < 2 ^ 32"
    using "7.prems"(2) by simp
  have each: "\<not> IsSimple T \<Longrightarrow> writes (serialize_each e v) (concat (map (wire_bytes e) v))"
    using "7.IH" wt small by (cases "IsFixedSize T"; cases T) simp_all
  show ?case
  proof (cases T)
    case (TPrim pt)
    have "sum_list (map true_size v) = length v * sizeof pt"
      using wt TPrim by (intro sum_true_size_simple) simp
    then have "length v * sizeof pt < 2 ^ 32"
      using "7.prems"(2) by simp
    then show ?thesis
      using TPrim wt by (simp add: writes_array_simple)
  qed (use each in simp_all)
next
  case (8 e)
  show ?case by (simp add: writes_ret)
next
  case (9 e x xs)
  then show ?case by (simp add: writes_bnd)
qed

lemma length_wire_bytes: "well_typed v \<Longrightarrow> length (wire_bytes e v) = true_size v"
proof (induction v)
  case (VVector T v)
  then have "map (\<lambda>x. length (wire_bytes e x)) v = map true_size v"
    by simp
  then have "sum_list (map (\<lambda>x. length (wire_bytes e x)) v) = sum_list (map true_size v)"
    by (rule arg_cong)
  then show ?case by (simp add: length_concat comp_def)
next
  case (VArray T v)
  then have "map (\<lambda>x. length (wire_bytes e x)) v = map true_size v"
    by simp
  then have "sum_list (map (\<lambda>x. length (wire_bytes e x)) v) = sum_list (map true_size v)"
    by (rule arg_cong)
  then show ?case by (simp add: length_concat comp_def)
qed simp_all

section \<open>A read pass over the bytes of a value\<close>



lemma read_mem_split:
  assumes "read_mem m p (length (as @ bs)) = as @ bs"
  shows "read_mem m p (length as) = as" and "read_mem m (p + length as) (length bs) = bs"
proof -
  have "read_mem m p (length as) @ read_mem m (p + length as) (length bs) = as @ bs"
    using assms by (simp add: read_mem_append)
  then show "read_mem m p (length as) = as" and "read_mem m (p + length as) (length bs) = bs"
    by simp_all
qed


















section \<open>Round trip\<close>

lemma IStream_simps [simp]:
  "data_ptr (IStream p c) = p" "end_ptr (IStream p c) = p + unat c"
  by (simp_all add: IStream_def Stream_init_def)

lemma serialize_bytes:
  assumes wt: "well_typed v" and small: "true_size v < 2 ^ 32"
    and ok: "fst (serialize e v (OStream p c, m)) = Inr ()"
  shows "serialize e v (OStream p c, m)
           = (Inr (), ((OStream p c)\<lparr>data_ptr := p + true_size v\<rparr>, memcpy p (wire_bytes e v) m))"
proof -
  have "wire_size v \<le> unat c"
    using ok by (simp add: serialize_fits)
  then have "data_ptr (OStream p c) + length (wire_bytes e v) \<le> end_ptr (OStream p c)"
    using wt small by (simp add: wire_size_eq_true length_wire_bytes)
  from writes_serialize(1) [OF wt small, of e, unfolded writes_def, rule_format, OF this, of m]
  show ?thesis
    using wt by (simp add: length_wire_bytes)
qed





section \<open>Length pass against write pass\<close>





section \<open>Envelopes\<close>

lemma read_mem_memcpy_parts:
  "read_mem (memcpy p (as @ bs) m) p (length as) = as"
  "read_mem (memcpy p (as @ bs) m) (p + length as) (length bs) = bs"
  using read_mem_split [of "memcpy p (as @ bs) m" p as bs] read_mem_memcpy_same [of p "as @ bs" m]
  by simp_all

lemma host_bytes_u8: "host_bytes e 1 (w :: u8) = [w]"
  by (cases e) (simp_all add: host_bytes_def)

lemma serialize_position_independent:
  assumes wt: "well_typed v" and small: "true_size v < 2 ^ 32"
  shows "read_mem (snd (snd (serialize e v (OStream q (of_nat (true_size v)), m0)))) q (true_size v)
           = wire_bytes e v"
proof -
  have un: "unat (of_nat (true_size v) :: u32) = true_size v"
    using small by (rule unat_of_nat_32)
  have ok: "fst (serialize e v (OStream q (of_nat (true_size v)), m0)) = Inr ()"
    using wire_size_le_true [OF wt] by (simp add: serialize_fits un)
  show ?thesis
    using read_mem_memcpy_same [of q "wire_bytes e v" m0]
    by (simp add: serialize_bytes [OF wt small ok] length_wire_bytes [OF wt])
qed

lemma serializeMessage_val:
  assumes wt: "well_typed v" and small: "true_size v + 4 < 2 ^ 32"
  shows "serializeMessage serializedLength (serialize e) e v new_buf mem
           = (Inr \<lparr>buf = new_buf, num_bytes = true_size v + 4, message_start = Some (new_buf + 4)\<rparr>,
              memcpy new_buf (host_bytes e 4 (serializationLength v) @ wire_bytes e v) mem)"
proof -
  let ?L = "of_nat (true_size v) :: u32"
  have ts: "true_size v < 2 ^ 32" using small by simp
  have L: "LStream_getLength (serializedLength v LStream_init) = ?L"
    using serializationLength_true [OF wt] by (simp add: serializationLength_def)
  have n: "unat (?L + 4) = true_size v + 4"
    using unat_of_nat_32 [OF small] by simp
  have sub4: "(of_nat (true_size v + 4) :: u32) - 4 = ?L" "(of_nat (true_size v + 4) :: u32) = ?L + 4"
    by simp_all
  let ?s = "OStream new_buf (?L + 4)"
  have end_s: "end_ptr ?s = new_buf + (true_size v + 4)"
    using n by simp
  let ?s1 = "?s\<lparr>data_ptr := new_buf + 4\<rparr>"
  let ?m1 = "memcpy new_buf (host_bytes e 4 ?L) mem"
  have w1: "prim_write e (UInt32 ?L) (?s, mem) = (Inr (), (?s1, ?m1))"
    using prim_write_ok [of ?s "UInt32 ?L" e mem] end_s by simp
  have fit: "data_ptr ?s1 + length (wire_bytes e v) \<le> end_ptr ?s1"
    using end_s by (simp add: length_wire_bytes [OF wt])
  from writes_serialize(1) [OF wt ts, of e, unfolded writes_def, rule_format, OF fit, of ?m1]
  have w2: "serialize e v (?s1, ?m1)
      = (Inr (), (?s1\<lparr>data_ptr := new_buf + 4 + true_size v\<rparr>, memcpy (new_buf + 4) (wire_bytes e v) ?m1))"
    by (simp add: length_wire_bytes [OF wt])
  have mem: "memcpy (new_buf + 4) (wire_bytes e v) ?m1
      = memcpy new_buf (host_bytes e 4 ?L @ wire_bytes e v) mem"
    by (simp add: memcpy_append)
  show ?thesis
    unfolding serializeMessage_def Let_def L n
    by (simp add: w1 w2 mem getData_def serializationLength_true [OF wt])
qed

lemma serializeMessage_wrap:
  assumes "2 ^ 32 \<le> unat (LStream_getLength (M_serializedLength message LStream_init)) + 4"
  shows "serializeMessage M_serializedLength M_write e message new_buf mem
           = (Inl StreamOverrunException, mem)"
proof -
  define L where "L = LStream_getLength (M_serializedLength message LStream_init)"
  have lt: "unat L < 4294967296"
    using unsigned_less [of L] by simp
  have ge: "4294967296 \<le> unat L + 4"
    using assms unfolding L_def [symmetric] by simp
  have "unat (L + 4) = (unat L + 4) mod 4294967296"
    by (simp add: unat_word_ariths)
  also have "\<dots> = (unat L + 4 - 4294967296) mod 4294967296"
    using ge by (rule le_mod_geq)
  also have "\<dots> = unat L + 4 - 4294967296"
    using lt by (intro mod_less) linarith
  finally have n: "unat (L + 4) < 4"
    using lt by linarith
  let ?s = "OStream new_buf (L + 4)"
  have "end_ptr ?s < data_ptr ?s + 4"
    using n by simp
  then have w1: "prim_write e (UInt32 w) (?s, mem)
      = (Inl StreamOverrunException, (?s\<lparr>data_ptr := data_ptr ?s + 4\<rparr>, mem))" for w
    by (rule count_write_fail)
  show ?thesis
    unfolding serializeMessage_def Let_def L_def [symmetric]
    by (simp add: w1)
qed

lemma serializeMessage_any:
  assumes "unat (LStream_getLength (M_serializedLength message LStream_init)) + 4 < 2 ^ 32"
  shows "serializeMessage M_serializedLength M_write e message new_buf mem =
     (case M_write message
        ((OStream new_buf (LStream_getLength (M_serializedLength message LStream_init) + 4))
            \<lparr>data_ptr := new_buf + 4\<rparr>,
         memcpy new_buf (host_bytes e 4 (LStream_getLength (M_serializedLength message LStream_init))) mem) of
        (Inl ex, st2) \<Rightarrow> (Inl ex, snd st2)
      | (Inr u, st2) \<Rightarrow>
          (Inr \<lparr>buf = new_buf,
                 num_bytes = unat (LStream_getLength (M_serializedLength message LStream_init)) + 4,
                 message_start = Some (new_buf + 4)\<rparr>,
           snd st2))"
proof -
  define L where "L = LStream_getLength (M_serializedLength message LStream_init)"
  have n: "unat (L + 4) = unat L + 4"
    using assms unfolding L_def [symmetric] by (simp add: unat_word_ariths)
  let ?s = "OStream new_buf (L + 4)"
  have end_s: "end_ptr ?s = new_buf + (unat L + 4)"
    using n by simp
  have w1: "prim_write e (UInt32 L) (?s, mem)
      = (Inr (), (?s\<lparr>data_ptr := new_buf + 4\<rparr>, memcpy new_buf (host_bytes e 4 L) mem))"
    using prim_write_ok [of ?s "UInt32 L" e mem] end_s by simp
  show ?thesis
    unfolding serializeMessage_def Let_def L_def [symmetric] n
    by (simp add: w1 getData_def split: prod.splits sum.splits)
qed

lemma serializeMessage_val_framing:
  assumes "well_typed v" and "true_size v + 4 < 2 ^ 32"
  shows "fst (serializeMessage serializedLength (serialize e) e v new_buf mem)
           = Inr \<lparr>buf = new_buf, num_bytes = unat (serializationLength v) + 4,
                  message_start = Some (new_buf + 4)\<rparr> \<and>
         read_mem (snd (serializeMessage serializedLength (serialize e) e v new_buf mem)) new_buf 4
           = host_bytes e 4 (serializationLength v) \<and>
         read_mem (snd (serializeMessage serializedLength (serialize e) e v new_buf mem)) (new_buf + 4)
             (unat (serializationLength v))
           = read_mem (snd (snd (serialize e v (OStream q (serializationLength v), m0)))) q
               (unat (serializationLength v))"
proof -
  have ts: "true_size v < 2 ^ 32" using assms(2) by simp
  have L: "serializationLength v = of_nat (true_size v)"
    using assms(1) by (rule serializationLength_true)
  have un: "unat (of_nat (true_size v) :: u32) = true_size v"
    using ts by (rule unat_of_nat_32)
  note R = serializeMessage_val [OF assms, of e new_buf mem]
  have 1: "read_mem (memcpy new_buf (host_bytes e 4 (serializationLength v) @ wire_bytes e v) mem) new_buf 4
      = host_bytes e 4 (serializationLength v)"
    using read_mem_memcpy_parts(1) [of new_buf "host_bytes e 4 (serializationLength v)" "wire_bytes e v" mem]
    by simp
  have 2: "read_mem (memcpy new_buf (host_bytes e 4 (serializationLength v) @ wire_bytes e v) mem)
      (new_buf + 4) (true_size v) = wire_bytes e v"
    using read_mem_memcpy_parts(2) [of new_buf "host_bytes e 4 (serializationLength v)" "wire_bytes e v" mem]
    by (simp add: length_wire_bytes [OF assms(1)])
  show ?thesis
    unfolding R
    using 1 2 serialize_position_independent [OF assms(1) ts, of e q m0]
    by (simp add: L un)
qed

text \<open>
  C5 (as amended). For every message whose computed length plus 4 is below \<open>2 ^ 32\<close>,
  \<^verbatim>\<open>serializeMessage\<close> takes a buffer of (computed length) + 4 bytes, stores the
  computed length as a 4-byte unsigned integer in host layout at its front and runs the
  write pass of the message right behind it, on a stream that ends with the buffer; when
  that pass raises no overrun it returns the buffer, its size and the payload marker at
  offset 4. For every well-typed message of the built-in codecs the pass raises no
  overrun and the payload is what a write pass of the message alone produces anywhere.
  For every message whose computed length plus 4 is \<open>2 ^ 32\<close> or more the 32-bit buffer
  size wraps to less than 4, and the overrun failure is raised with nothing written.
\<close>

theorem serializeMessage_framing:
  "(unat (LStream_getLength (M_serializedLength message LStream_init)) + 4 < 2 ^ 32 \<longrightarrow>
      serializeMessage M_serializedLength M_write e message new_buf mem =
        (case M_write message
           ((OStream new_buf (LStream_getLength (M_serializedLength message LStream_init) + 4))
               \<lparr>data_ptr := new_buf + 4\<rparr>,
            memcpy new_buf (host_bytes e 4 (LStream_getLength (M_serializedLength message LStream_init))) mem) of
           (Inl ex, st2) \<Rightarrow> (Inl ex, snd st2)
         | (Inr u, st2) \<Rightarrow>
             (Inr \<lparr>buf = new_buf,
                    num_bytes = unat (LStream_getLength (M_serializedLength message LStream_init)) + 4,
                    message_start = Some (new_buf + 4)\<rparr>,
              snd st2))) \<and>
   (well_typed v \<and> true_size v + 4 < 2 ^ 32 \<longrightarrow>
      fst (serializeMessage serializedLength (serialize e) e v new_buf mem)
        = Inr \<lparr>buf = new_buf, num_bytes = unat (serializationLength v) + 4,
               message_start = Some (new_buf + 4)\<rparr> \<and>
      read_mem (snd (serializeMessage serializedLength (serialize e) e v new_buf mem)) new_buf 4
        = host_bytes e 4 (serializationLength v) \<and>
      read_mem (snd (serializeMessage serializedLength (serialize e) e v new_buf mem)) (new_buf + 4)
          (unat (serializationLength v))
        = read_mem (snd (snd (serialize e v (OStream q (serializationLength v), m0)))) q
            (unat (serializationLength v))) \<and>
   (2 ^ 32 \<le> unat (LStream_getLength (M_serializedLength message LStream_init)) + 4 \<longrightarrow>
      serializeMessage M_serializedLength M_write e message new_buf mem
        = (Inl StreamOverrunException, mem))"
  using serializeMessage_any [of M_serializedLength message M_write e new_buf mem]
    serializeMessage_val_framing [of v e new_buf mem q m0]
    serializeMessage_wrap [of M_serializedLength message M_write e new_buf mem]
  by blast

theorem serializeMessage_framing_witness:
  "well_typed (VString [104, 105, 33, 33, 33, 33]) \<and>
   true_size (VString [104, 105, 33, 33, 33, 33]) + 4 < 2 ^ 32 \<and>
   unat (serializationLength (VString [104, 105, 33, 33, 33, 33])) = 10 \<and>
   fst (serializeMessage serializedLength (serialize LittleEndian) LittleEndian
         (VString [104, 105, 33, 33, 33, 33]) 100 zero_memory)
     = Inr \<lparr>buf = 100, num_bytes = 14, message_start = Some 104\<rparr> \<and>
   read_mem (snd (serializeMessage serializedLength (serialize LittleEndian) LittleEndian
         (VString [104, 105, 33, 33, 33, 33]) 100 zero_memory)) 100 4 = [10, 0, 0, 0] \<and>
   unat (LStream_getLength (Serializer_serializedLength legacy_serializationLength 7 LStream_init)) + 4
     < 2 ^ 32 \<and>
   fst (serializeMessage (Serializer_serializedLength legacy_serializationLength)
         (Serializer_write legacy_serialize) LittleEndian 7 100 zero_memory)
     = Inr \<lparr>buf = 100, num_bytes = 8, message_start = Some 104\<rparr> \<and>
   2 ^ 32 \<le> unat (LStream_getLength (serializedLength (VString (replicate 4294967291 65)) LStream_init)) + 4 \<and>
   fst (serializeMessage serializedLength (serialize LittleEndian) LittleEndian
         (VString (replicate 4294967291 65)) 100 zero_memory) = Inl StreamOverrunException"
proof -
  let ?v = "VString [104, 105, 33, 33, 33, 33]"
  have wt: "well_typed ?v" by simp
  have sz: "true_size ?v + 4 < 2 ^ 32" by simp
  have len: "serializationLength ?v = 10"
    by (simp add: serializationLength_def LStream_getLength_def LStream_advance_def LStream_init_def)
  have bytes: "host_bytes LittleEndian 4 (10 :: u32) = [10, 0, 0, 0]"
    by (simp add: host_bytes_def le_bytes_numeral)
  have L: "LStream_getLength (Serializer_serializedLength legacy_serializationLength 7 LStream_init) = 4"
    by (simp add: Serializer_serializedLength_def legacy_serializationLength_def)
  have small: "unat (LStream_getLength (Serializer_serializedLength legacy_serializationLength 7 LStream_init)) + 4
      < 2 ^ 32"
    unfolding L by simp
  note t = serializeMessage_framing [where M_serializedLength = "Serializer_serializedLength legacy_serializationLength"
      and M_write = "Serializer_write legacy_serialize" and message = 7 and e = LittleEndian
      and new_buf = 100 and mem = zero_memory and v = ?v and q = 0 and ?m0.0 = zero_memory]
  from t wt sz have a: "fst (serializeMessage serializedLength (serialize LittleEndian) LittleEndian ?v 100 zero_memory)
        = Inr \<lparr>buf = 100, num_bytes = unat (serializationLength ?v) + 4, message_start = Some (100 + 4)\<rparr>"
    and b: "read_mem (snd (serializeMessage serializedLength (serialize LittleEndian) LittleEndian ?v 100 zero_memory))
        100 4 = host_bytes LittleEndian 4 (serializationLength ?v)"
    by blast+
  from t small have "serializeMessage (Serializer_serializedLength legacy_serializationLength)
         (Serializer_write legacy_serialize) LittleEndian 7 100 zero_memory
      = (case Serializer_write legacy_serialize 7
           ((OStream 100 (LStream_getLength (Serializer_serializedLength legacy_serializationLength 7 LStream_init) + 4))
               \<lparr>data_ptr := 100 + 4\<rparr>,
            memcpy 100 (host_bytes LittleEndian 4
              (LStream_getLength (Serializer_serializedLength legacy_serializationLength 7 LStream_init))) zero_memory) of
           (Inl ex, st2) \<Rightarrow> (Inl ex, snd st2)
         | (Inr u, st2) \<Rightarrow>
             (Inr \<lparr>buf = 100,
                    num_bytes = unat (LStream_getLength (Serializer_serializedLength legacy_serializationLength 7 LStream_init)) + 4,
                    message_start = Some (100 + 4)\<rparr>,
              snd st2))"
    by blast
  then have c: "fst (serializeMessage (Serializer_serializedLength legacy_serializationLength)
         (Serializer_write legacy_serialize) LittleEndian 7 100 zero_memory)
     = Inr \<lparr>buf = 100, num_bytes = 8, message_start = Some 104\<rparr>"
    unfolding L by (simp add: Serializer_write_def)
  have big: "2 ^ 32 \<le> unat (LStream_getLength (serializedLength (VString (replicate 4294967291 65)) LStream_init)) + 4"
    by (simp add: LStream_getLength_def LStream_advance_def LStream_init_def)
  note tw = serializeMessage_framing [where M_serializedLength = serializedLength
      and M_write = "serialize LittleEndian" and message = "VString (replicate 4294967291 65)"
      and e = LittleEndian and new_buf = 100 and mem = zero_memory]
  from tw big have "serializeMessage serializedLength (serialize LittleEndian) LittleEndian
         (VString (replicate 4294967291 65)) 100 zero_memory = (Inl StreamOverrunException, zero_memory)"
    by blast
  then have d: "fst (serializeMessage serializedLength (serialize LittleEndian) LittleEndian
         (VString (replicate 4294967291 65)) 100 zero_memory) = Inl StreamOverrunException"
    by simp
  have abc: "well_typed ?v \<and> true_size ?v + 4 < 2 ^ 32 \<and> unat (serializationLength ?v) = 10 \<and>
      fst (serializeMessage serializedLength (serialize LittleEndian) LittleEndian ?v 100 zero_memory)
        = Inr \<lparr>buf = 100, num_bytes = 14, message_start = Some 104\<rparr> \<and>
      read_mem (snd (serializeMessage serializedLength (serialize LittleEndian) LittleEndian ?v 100 zero_memory))
        100 4 = [10, 0, 0, 0] \<and>
      unat (LStream_getLength (Serializer_serializedLength legacy_serializationLength 7 LStream_init)) + 4
        < 2 ^ 32 \<and>
      fst (serializeMessage (Serializer_serializedLength legacy_serializationLength)
            (Serializer_write legacy_serialize) LittleEndian 7 100 zero_memory)
        = Inr \<lparr>buf = 100, num_bytes = 8, message_start = Some 104\<rparr>"
    using a b c wt sz small unfolding len bytes by simp
  from abc big d show ?thesis
    by blast
qed

theorem serializeMessage_wrap_counterexample:
  "well_typed (VVector (TPrim TUInt8) (replicate 4294967288 (VPrim (UInt8 0)))) \<and>
   unat (serializationLength (VVector (TPrim TUInt8) (replicate 4294967288 (VPrim (UInt8 0))))) = 4294967292 \<and>
   fst (serializeMessage serializedLength (serialize LittleEndian) LittleEndian
         (VVector (TPrim TUInt8) (replicate 4294967288 (VPrim (UInt8 0)))) 100 zero_memory)
     = Inl StreamOverrunException"
proof -
  let ?v = "VVector (TPrim TUInt8) (replicate 4294967288 (VPrim (UInt8 0)))"
  have wt: "well_typed ?v" by simp
  have L: "LStream_getLength (serializedLength ?v LStream_init) = 4294967292"
    by (simp add: VectorSerializer_simple_serializedLength_def)
  have len: "unat (serializationLength ?v) = 4294967292"
    unfolding serializationLength_def L by simp
  have "fst (serializeMessage serializedLength (serialize LittleEndian) LittleEndian ?v 100 zero_memory)
      = Inl StreamOverrunException"
    unfolding serializeMessage_def Let_def L
    by (simp add: prim_write_def advance_store_def advance_def OStream_def Stream_init_def)
  with wt len show ?thesis by blast
qed

lemma serializeServiceResponse_failure:
  "serializeServiceResponse M_serializedLength M_write e False message new_buf mem
     = (Inr \<lparr>buf = new_buf, num_bytes = 5, message_start = None\<rparr>,
        memcpy new_buf [0, 0, 0, 0, 0] mem)"
proof -
  let ?s = "OStream new_buf 5"
  let ?s1 = "?s\<lparr>data_ptr := Suc new_buf\<rparr>"
  let ?m1 = "memcpy new_buf [0] mem"
  have w1: "prim_write e (UInt8 0) (?s, mem) = (Inr (), (?s1, ?m1))"
    using prim_write_ok [of ?s "UInt8 0" e mem] by (simp add: host_bytes_u8 [simplified])
  have w2: "prim_write e (UInt32 0) (?s1, ?m1)
      = (Inr (), (?s1\<lparr>data_ptr := new_buf + 5\<rparr>, memcpy (Suc new_buf) [0, 0, 0, 0] ?m1))"
    using prim_write_ok [of ?s1 "UInt32 0" e ?m1] by (simp add: host_bytes_zero)
  have m: "memcpy (Suc new_buf) [0, 0, 0, 0] ?m1 = memcpy new_buf [0, 0, 0, 0, 0] mem"
    using memcpy_append [of new_buf "[0]" "[0, 0, 0, 0]" mem] by simp
  show ?thesis
    unfolding serializeServiceResponse_def Let_def
    by (simp add: w1 w2 m)
qed

lemma serializeServiceResponse_val:
  assumes wt: "well_typed v" and small: "true_size v + 5 < 2 ^ 32"
  shows "serializeServiceResponse serializedLength (serialize e) e True v new_buf mem
           = (Inr \<lparr>buf = new_buf, num_bytes = true_size v + 5, message_start = None\<rparr>,
              memcpy new_buf ([1] @ host_bytes e 4 (serializationLength v) @ wire_bytes e v) mem)"
proof -
  let ?L = "of_nat (true_size v) :: u32"
  have ts: "true_size v < 2 ^ 32" using small by simp
  have L: "LStream_getLength (serializedLength v LStream_init) = ?L"
    using serializationLength_true [OF wt] by (simp add: serializationLength_def)
  have n: "unat (?L + 5) = true_size v + 5"
    using unat_of_nat_32 [OF small] by simp
  let ?s = "OStream new_buf (?L + 5)"
  have end_s: "end_ptr ?s = new_buf + (true_size v + 5)"
    using n by simp
  let ?s1 = "?s\<lparr>data_ptr := Suc new_buf\<rparr>"
  let ?m1 = "memcpy new_buf [1] mem"
  have w1: "prim_write e (UInt8 1) (?s, mem) = (Inr (), (?s1, ?m1))"
    using prim_write_ok [of ?s "UInt8 1" e mem] end_s by (simp add: host_bytes_u8 [simplified])
  let ?s2 = "?s\<lparr>data_ptr := new_buf + 5\<rparr>"
  let ?m2 = "memcpy (Suc new_buf) (host_bytes e 4 ?L) ?m1"
  have w2: "prim_write e (UInt32 ?L) (?s1, ?m1) = (Inr (), (?s2, ?m2))"
    using prim_write_ok [of ?s1 "UInt32 ?L" e ?m1] end_s by simp
  have fit: "data_ptr ?s2 + length (wire_bytes e v) \<le> end_ptr ?s2"
    using end_s by (simp add: length_wire_bytes [OF wt])
  from writes_serialize(1) [OF wt ts, of e, unfolded writes_def, rule_format, OF fit, of ?m2]
  have w3: "serialize e v (?s2, ?m2)
      = (Inr (), (?s2\<lparr>data_ptr := new_buf + 5 + true_size v\<rparr>, memcpy (new_buf + 5) (wire_bytes e v) ?m2))"
    by (simp add: length_wire_bytes [OF wt])
  have m: "memcpy (new_buf + 5) (wire_bytes e v) ?m2
      = memcpy new_buf ([1] @ host_bytes e 4 ?L @ wire_bytes e v) mem"
  proof -
    have "memcpy new_buf ([1] @ (host_bytes e 4 ?L @ wire_bytes e v)) mem
        = memcpy (new_buf + length [1 :: u8]) (host_bytes e 4 ?L @ wire_bytes e v) ?m1"
      by (rule memcpy_append)
    also have "\<dots> = memcpy (Suc new_buf) (host_bytes e 4 ?L @ wire_bytes e v) ?m1"
      by simp
    also have "\<dots> = memcpy (Suc new_buf + length (host_bytes e 4 ?L)) (wire_bytes e v) ?m2"
      by (rule memcpy_append)
    also have "\<dots> = memcpy (new_buf + 5) (wire_bytes e v) ?m2"
      by (simp add: add.commute [of 5 new_buf])
    finally show ?thesis by simp
  qed
  show ?thesis
    unfolding serializeServiceResponse_def Let_def L n
    by (simp add: w1 w2 w3 m serializationLength_true [OF wt])
qed

lemma serializeServiceResponse_wrap:
  assumes "2 ^ 32 \<le> unat (LStream_getLength (M_serializedLength message LStream_init)) + 5"
  shows "fst (serializeServiceResponse M_serializedLength M_write e True message new_buf mem)
           = Inl StreamOverrunException"
proof -
  define L where "L = LStream_getLength (M_serializedLength message LStream_init)"
  have lt: "unat L < 4294967296"
    using unsigned_less [of L] by simp
  have ge: "4294967296 \<le> unat L + 5"
    using assms unfolding L_def [symmetric] by simp
  have "unat (L + 5) = (unat L + 5) mod 4294967296"
    by (simp add: unat_word_ariths)
  also have "\<dots> = (unat L + 5 - 4294967296) mod 4294967296"
    using ge by (rule le_mod_geq)
  also have "\<dots> = unat L + 5 - 4294967296"
    using lt by (intro mod_less) linarith
  finally have n: "unat (L + 5) < 5"
    using lt by linarith
  let ?s = "OStream new_buf (L + 5)"
  show ?thesis
  proof (cases "unat (L + 5) = 0")
    case True
    then have "end_ptr ?s < data_ptr ?s + unat (1 :: u32)"
      by simp
    then have w1: "prim_write e (UInt8 1) (?s, mem)
        = (Inl StreamOverrunException, (?s\<lparr>data_ptr := data_ptr ?s + unat (1 :: u32)\<rparr>, mem))"
      unfolding prim_write_def using advance_store_fail [of ?s 1 "object_bytes e (UInt8 1)" mem]
      by simp
    show ?thesis
      unfolding serializeServiceResponse_def Let_def L_def [symmetric]
      by (simp add: w1)
  next
    case False
    then have "data_ptr ?s + sizeof (prim_type (UInt8 1)) \<le> end_ptr ?s"
      by simp
    then have w1: "prim_write e (UInt8 1) (?s, mem)
        = (Inr (), (?s\<lparr>data_ptr := Suc new_buf\<rparr>, memcpy new_buf (object_bytes e (UInt8 1)) mem))"
      using prim_write_ok [of ?s "UInt8 1" e mem] by simp
    have "end_ptr (?s\<lparr>data_ptr := Suc new_buf\<rparr>) < data_ptr (?s\<lparr>data_ptr := Suc new_buf\<rparr>) + 4"
      using n by simp
    then have w2: "prim_write e (UInt32 w) (?s\<lparr>data_ptr := Suc new_buf\<rparr>, mm)
        = (Inl StreamOverrunException,
           ((?s\<lparr>data_ptr := Suc new_buf\<rparr>)\<lparr>data_ptr := data_ptr (?s\<lparr>data_ptr := Suc new_buf\<rparr>) + 4\<rparr>, mm))" for w mm
      by (rule count_write_fail)
    show ?thesis
      unfolding serializeServiceResponse_def Let_def L_def [symmetric]
      by (simp add: w1 w2)
  qed
qed

lemma serializeServiceResponse_any:
  assumes "unat (LStream_getLength (M_serializedLength message LStream_init)) + 5 < 2 ^ 32"
  shows "serializeServiceResponse M_serializedLength M_write e True message new_buf mem =
     (case M_write message
        ((OStream new_buf (LStream_getLength (M_serializedLength message LStream_init) + 5))
            \<lparr>data_ptr := new_buf + 5\<rparr>,
         memcpy (new_buf + 1) (host_bytes e 4 (LStream_getLength (M_serializedLength message LStream_init)))
           (memcpy new_buf [1] mem)) of
        (Inl ex, st3) \<Rightarrow> (Inl ex, snd st3)
      | (Inr u, st3) \<Rightarrow>
          (Inr \<lparr>buf = new_buf,
                 num_bytes = unat (LStream_getLength (M_serializedLength message LStream_init)) + 5,
                 message_start = None\<rparr>,
           snd st3))"
proof -
  define L where "L = LStream_getLength (M_serializedLength message LStream_init)"
  have n: "unat (L + 5) = unat L + 5"
    using assms unfolding L_def [symmetric] by (simp add: unat_word_ariths)
  let ?s = "OStream new_buf (L + 5)"
  have end_s: "end_ptr ?s = new_buf + (unat L + 5)"
    using n by simp
  let ?s1 = "?s\<lparr>data_ptr := Suc new_buf\<rparr>"
  let ?m1 = "memcpy new_buf [1] mem"
  have w1: "prim_write e (UInt8 1) (?s, mem) = (Inr (), (?s1, ?m1))"
    using prim_write_ok [of ?s "UInt8 1" e mem] end_s by (simp add: host_bytes_u8 [simplified])
  have w2: "prim_write e (UInt32 L) (?s1, ?m1)
      = (Inr (), (?s\<lparr>data_ptr := new_buf + 5\<rparr>, memcpy (Suc new_buf) (host_bytes e 4 L) ?m1))"
    using prim_write_ok [of ?s1 "UInt32 L" e ?m1] end_s by simp
  show ?thesis
    unfolding serializeServiceResponse_def Let_def L_def [symmetric] n
    by (simp add: w1 w2 split: prod.splits sum.splits)
qed

lemma serializeServiceResponse_val_framing:
  "serializeServiceResponse M_serializedLength M_write e False message new_buf mem
     = (Inr \<lparr>buf = new_buf, num_bytes = 5, message_start = None\<rparr>,
        memcpy new_buf [0, 0, 0, 0, 0] mem) \<and>
   read_mem (snd (serializeServiceResponse M_serializedLength M_write e False message new_buf mem))
     new_buf 5 = [0, 0, 0, 0, 0] \<and>
   (well_typed v \<and> true_size v + 5 < 2 ^ 32 \<longrightarrow>
      fst (serializeServiceResponse serializedLength (serialize e) e True v new_buf mem)
        = Inr \<lparr>buf = new_buf, num_bytes = unat (serializationLength v) + 5, message_start = None\<rparr> \<and>
      read_mem (snd (serializeServiceResponse serializedLength (serialize e) e True v new_buf mem))
        new_buf 1 = [1] \<and>
      read_mem (snd (serializeServiceResponse serializedLength (serialize e) e True v new_buf mem))
        (new_buf + 1) 4 = host_bytes e 4 (serializationLength v) \<and>
      read_mem (snd (serializeServiceResponse serializedLength (serialize e) e True v new_buf mem))
        (new_buf + 5) (unat (serializationLength v))
        = read_mem (snd (snd (serialize e v (OStream q (serializationLength v), m0)))) q
            (unat (serializationLength v)))"
proof -
  note F = serializeServiceResponse_failure [of M_serializedLength M_write e message new_buf mem]
  have f2: "read_mem (memcpy new_buf [0, 0, 0, 0, 0] mem) new_buf 5 = [0, 0, 0, 0, 0]"
  proof -
    have "length [0, 0, 0, 0, 0 :: u8] = 5" by simp
    then show ?thesis
      using read_mem_memcpy_same [of new_buf "[0, 0, 0, 0, 0]" mem] by (simp only:)
  qed
  have ok: "fst (serializeServiceResponse serializedLength (serialize e) e True v new_buf mem)
        = Inr \<lparr>buf = new_buf, num_bytes = unat (serializationLength v) + 5, message_start = None\<rparr> \<and>
      read_mem (snd (serializeServiceResponse serializedLength (serialize e) e True v new_buf mem))
        new_buf 1 = [1] \<and>
      read_mem (snd (serializeServiceResponse serializedLength (serialize e) e True v new_buf mem))
        (new_buf + 1) 4 = host_bytes e 4 (serializationLength v) \<and>
      read_mem (snd (serializeServiceResponse serializedLength (serialize e) e True v new_buf mem))
        (new_buf + 5) (unat (serializationLength v))
        = read_mem (snd (snd (serialize e v (OStream q (serializationLength v), m0)))) q
            (unat (serializationLength v))"
    if wt: "well_typed v" and small: "true_size v + 5 < 2 ^ 32"
  proof -
    have ts: "true_size v < 2 ^ 32" using small by simp
    have L: "serializationLength v = of_nat (true_size v)"
      using wt by (rule serializationLength_true)
    have un: "unat (of_nat (true_size v) :: u32) = true_size v"
      using ts by (rule unat_of_nat_32)
    let ?h = "host_bytes e 4 (serializationLength v)"
    let ?m = "memcpy new_buf ([1] @ ?h @ wire_bytes e v) mem"
    note R = serializeServiceResponse_val [OF wt small, of e new_buf mem]
    have 1: "read_mem ?m new_buf 1 = [1]"
      using read_mem_memcpy_parts(1) [of new_buf "[1]" "?h @ wire_bytes e v" mem] by simp
    have tail: "read_mem ?m (new_buf + 1) (length (?h @ wire_bytes e v)) = ?h @ wire_bytes e v"
      using read_mem_memcpy_parts(2) [of new_buf "[1]" "?h @ wire_bytes e v" mem] by simp
    have 2: "read_mem ?m (new_buf + 1) 4 = ?h"
      using read_mem_split(1) [OF tail] by simp
    have 3: "read_mem ?m (new_buf + 5) (true_size v) = wire_bytes e v"
      using read_mem_split(2) [OF tail]
      by (simp add: length_wire_bytes [OF wt] add.commute [of 5 new_buf])
    show ?thesis
      unfolding R
      using 1 2 3 serialize_position_independent [OF wt ts, of e q m0]
      by (simp add: L un)
  qed
  from F f2 ok show ?thesis
    by (simp only: snd_conv simp_thms) blast
qed

text \<open>
  C6 (as amended). A failed service reply is the same for every message and codec: a
  buffer of exactly 5 bytes, the status byte 0 and a 4-byte zero length, with nothing of
  the message written. A successful reply, for every message whose computed length plus
  5 is below \<open>2 ^ 32\<close>, takes a buffer of (computed length) + 5 bytes, stores the status
  byte 1 and the computed length as a 4-byte unsigned integer in host layout, and runs
  the write pass of the message right behind them; for every well-typed message of the
  built-in codecs that pass raises no overrun and writes the payload. For every message
  whose computed length plus 5 is \<open>2 ^ 32\<close> or more the 32-bit buffer size wraps to less
  than 5, and a successful reply raises the overrun failure.
\<close>

theorem serializeServiceResponse_framing:
  "serializeServiceResponse M_serializedLength M_write e False message new_buf mem
     = (Inr \<lparr>buf = new_buf, num_bytes = 5, message_start = None\<rparr>,
        memcpy new_buf [0, 0, 0, 0, 0] mem) \<and>
   read_mem (snd (serializeServiceResponse M_serializedLength M_write e False message new_buf mem))
     new_buf 5 = [0, 0, 0, 0, 0] \<and>
   (well_typed v \<and> true_size v + 5 < 2 ^ 32 \<longrightarrow>
      fst (serializeServiceResponse serializedLength (serialize e) e True v new_buf mem)
        = Inr \<lparr>buf = new_buf, num_bytes = unat (serializationLength v) + 5, message_start = None\<rparr> \<and>
      read_mem (snd (serializeServiceResponse serializedLength (serialize e) e True v new_buf mem))
        new_buf 1 = [1] \<and>
      read_mem (snd (serializeServiceResponse serializedLength (serialize e) e True v new_buf mem))
        (new_buf + 1) 4 = host_bytes e 4 (serializationLength v) \<and>
      read_mem (snd (serializeServiceResponse serializedLength (serialize e) e True v new_buf mem))
        (new_buf + 5) (unat (serializationLength v))
        = read_mem (snd (snd (serialize e v (OStream q (serializationLength v), m0)))) q
            (unat (serializationLength v))) \<and>
   (unat (LStream_getLength (M_serializedLength message LStream_init)) + 5 < 2 ^ 32 \<longrightarrow>
      serializeServiceResponse M_serializedLength M_write e True message new_buf mem =
        (case M_write message
           ((OStream new_buf (LStream_getLength (M_serializedLength message LStream_init) + 5))
               \<lparr>data_ptr := new_buf + 5\<rparr>,
            memcpy (new_buf + 1) (host_bytes e 4 (LStream_getLength (M_serializedLength message LStream_init)))
              (memcpy new_buf [1] mem)) of
           (Inl ex, st3) \<Rightarrow> (Inl ex, snd st3)
         | (Inr u, st3) \<Rightarrow>
             (Inr \<lparr>buf = new_buf,
                    num_bytes = unat (LStream_getLength (M_serializedLength message LStream_init)) + 5,
                    message_start = None\<rparr>,
              snd st3))) \<and>
   (2 ^ 32 \<le> unat (LStream_getLength (M_serializedLength message LStream_init)) + 5 \<longrightarrow>
      fst (serializeServiceResponse M_serializedLength M_write e True message new_buf mem)
        = Inl StreamOverrunException)"
  using serializeServiceResponse_val_framing [of M_serializedLength M_write e message new_buf mem v q m0]
    serializeServiceResponse_any [of M_serializedLength message M_write e new_buf mem]
    serializeServiceResponse_wrap [of M_serializedLength message M_write e new_buf mem]
  by blast

theorem serializeServiceResponse_framing_witness:
  "read_mem (snd (serializeServiceResponse (Serializer_serializedLength legacy_serializationLength)
       (Serializer_write legacy_serialize) LittleEndian False 7 100 zero_memory)) 100 5 = [0, 0, 0, 0, 0] \<and>
   well_typed (VBool True) \<and> true_size (VBool True) + 5 < 2 ^ 32 \<and>
   fst (serializeServiceResponse serializedLength (serialize LittleEndian) LittleEndian True
       (VBool True) 100 zero_memory) = Inr \<lparr>buf = 100, num_bytes = 6, message_start = None\<rparr> \<and>
   read_mem (snd (serializeServiceResponse serializedLength (serialize LittleEndian) LittleEndian True
       (VBool True) 100 zero_memory)) 100 1 = [1] \<and>
   read_mem (snd (serializeServiceResponse serializedLength (serialize LittleEndian) LittleEndian True
       (VBool True) 100 zero_memory)) 101 4 = [1, 0, 0, 0] \<and>
   unat (LStream_getLength (Serializer_serializedLength legacy_serializationLength 7 LStream_init)) + 5
     < 2 ^ 32 \<and>
   fst (serializeServiceResponse (Serializer_serializedLength legacy_serializationLength)
         (Serializer_write legacy_serialize) LittleEndian True 7 100 zero_memory)
     = Inr \<lparr>buf = 100, num_bytes = 9, message_start = None\<rparr> \<and>
   2 ^ 32 \<le> unat (LStream_getLength (serializedLength (VString (replicate 4294967291 65)) LStream_init)) + 5 \<and>
   fst (serializeServiceResponse serializedLength (serialize LittleEndian) LittleEndian True
         (VString (replicate 4294967291 65)) 100 zero_memory) = Inl StreamOverrunException"
proof -
  have wt: "well_typed (VBool True)" by simp
  have sz: "true_size (VBool True) + 5 < 2 ^ 32" by simp
  have len: "serializationLength (VBool True) = 1"
    by (simp add: serializationLength_def LStream_getLength_def LStream_advance_def LStream_init_def)
  have bytes: "host_bytes LittleEndian 4 (1 :: u32) = [1, 0, 0, 0]"
    by (simp add: host_bytes_def le_bytes_numeral)
  have L: "LStream_getLength (Serializer_serializedLength legacy_serializationLength 7 LStream_init) = 4"
    by (simp add: Serializer_serializedLength_def legacy_serializationLength_def)
  have small: "unat (LStream_getLength (Serializer_serializedLength legacy_serializationLength 7 LStream_init)) + 5
      < 2 ^ 32"
    unfolding L by simp
  note t = serializeServiceResponse_framing [where M_serializedLength = "Serializer_serializedLength legacy_serializationLength"
      and M_write = "Serializer_write legacy_serialize" and e = LittleEndian and message = 7
      and new_buf = 100 and mem = zero_memory and v = "VBool True" and q = 0 and ?m0.0 = zero_memory]
  from t have a: "read_mem (snd (serializeServiceResponse (Serializer_serializedLength legacy_serializationLength)
       (Serializer_write legacy_serialize) LittleEndian False 7 100 zero_memory)) 100 5 = [0, 0, 0, 0, 0]"
    by blast
  from t wt sz have b: "fst (serializeServiceResponse serializedLength (serialize LittleEndian) LittleEndian True
       (VBool True) 100 zero_memory)
       = Inr \<lparr>buf = 100, num_bytes = unat (serializationLength (VBool True)) + 5, message_start = None\<rparr>"
    and c: "read_mem (snd (serializeServiceResponse serializedLength (serialize LittleEndian) LittleEndian True
       (VBool True) 100 zero_memory)) 100 1 = [1]"
    and d: "read_mem (snd (serializeServiceResponse serializedLength (serialize LittleEndian) LittleEndian True
       (VBool True) 100 zero_memory)) (100 + 1) 4 = host_bytes LittleEndian 4 (serializationLength (VBool True))"
    by blast+
  from t small have "serializeServiceResponse (Serializer_serializedLength legacy_serializationLength)
         (Serializer_write legacy_serialize) LittleEndian True 7 100 zero_memory
      = (case Serializer_write legacy_serialize 7
           ((OStream 100 (LStream_getLength (Serializer_serializedLength legacy_serializationLength 7 LStream_init) + 5))
               \<lparr>data_ptr := 100 + 5\<rparr>,
            memcpy (100 + 1) (host_bytes LittleEndian 4
              (LStream_getLength (Serializer_serializedLength legacy_serializationLength 7 LStream_init)))
              (memcpy 100 [1] zero_memory)) of
           (Inl ex, st3) \<Rightarrow> (Inl ex, snd st3)
         | (Inr u, st3) \<Rightarrow>
             (Inr \<lparr>buf = 100,
                    num_bytes = unat (LStream_getLength (Serializer_serializedLength legacy_serializationLength 7 LStream_init)) + 5,
                    message_start = None\<rparr>,
              snd st3))"
    by blast
  then have g: "fst (serializeServiceResponse (Serializer_serializedLength legacy_serializationLength)
         (Serializer_write legacy_serialize) LittleEndian True 7 100 zero_memory)
     = Inr \<lparr>buf = 100, num_bytes = 9, message_start = None\<rparr>"
    unfolding L by (simp add: Serializer_write_def)
  have big: "2 ^ 32 \<le> unat (LStream_getLength (serializedLength (VString (replicate 4294967291 65)) LStream_init)) + 5"
    by (simp add: LStream_getLength_def LStream_advance_def LStream_init_def)
  note tw = serializeServiceResponse_framing [where M_serializedLength = serializedLength
      and M_write = "serialize LittleEndian" and message = "VString (replicate 4294967291 65)"
      and e = LittleEndian and new_buf = 100 and mem = zero_memory]
  from tw big have h: "fst (serializeServiceResponse serializedLength (serialize LittleEndian) LittleEndian True
         (VString (replicate 4294967291 65)) 100 zero_memory) = Inl StreamOverrunException"
    by blast
  have abc: "read_mem (snd (serializeServiceResponse (Serializer_serializedLength legacy_serializationLength)
         (Serializer_write legacy_serialize) LittleEndian False 7 100 zero_memory)) 100 5 = [0, 0, 0, 0, 0] \<and>
      well_typed (VBool True) \<and> true_size (VBool True) + 5 < 2 ^ 32 \<and>
      fst (serializeServiceResponse serializedLength (serialize LittleEndian) LittleEndian True
         (VBool True) 100 zero_memory) = Inr \<lparr>buf = 100, num_bytes = 6, message_start = None\<rparr> \<and>
      read_mem (snd (serializeServiceResponse serializedLength (serialize LittleEndian) LittleEndian True
         (VBool True) 100 zero_memory)) 100 1 = [1] \<and>
      read_mem (snd (serializeServiceResponse serializedLength (serialize LittleEndian) LittleEndian True
         (VBool True) 100 zero_memory)) 101 4 = [1, 0, 0, 0] \<and>
      unat (LStream_getLength (Serializer_serializedLength legacy_serializationLength 7 LStream_init)) + 5
        < 2 ^ 32 \<and>
      fst (serializeServiceResponse (Serializer_serializedLength legacy_serializationLength)
            (Serializer_write legacy_serialize) LittleEndian True 7 100 zero_memory)
        = Inr \<lparr>buf = 100, num_bytes = 9, message_start = None\<rparr>"
    using a b c d g wt sz small unfolding len bytes by simp
  from abc big h show ?thesis
    by blast
qed

theorem serializeServiceResponse_wrap_counterexample:
  "well_typed (VVector (TPrim TUInt8) (replicate 4294967287 (VPrim (UInt8 0)))) \<and>
   unat (serializationLength (VVector (TPrim TUInt8) (replicate 4294967287 (VPrim (UInt8 0))))) = 4294967291 \<and>
   fst (serializeServiceResponse serializedLength (serialize LittleEndian) LittleEndian True
         (VVector (TPrim TUInt8) (replicate 4294967287 (VPrim (UInt8 0)))) 100 zero_memory)
     = Inl StreamOverrunException"
proof -
  let ?v = "VVector (TPrim TUInt8) (replicate 4294967287 (VPrim (UInt8 0)))"
  have wt: "well_typed ?v" by simp
  have L: "LStream_getLength (serializedLength ?v LStream_init) = 4294967291"
    by (simp add: VectorSerializer_simple_serializedLength_def)
  have len: "unat (serializationLength ?v) = 4294967291"
    unfolding serializationLength_def L by simp
  have "fst (serializeServiceResponse serializedLength (serialize LittleEndian) LittleEndian True ?v 100 zero_memory)
      = Inl StreamOverrunException"
    unfolding serializeServiceResponse_def Let_def L
    by (simp add: prim_write_def advance_store_def advance_def OStream_def Stream_init_def)
  with wt len show ?thesis by blast
qed

end
